theory Spec2Isabelle
  imports Complex_Main
begin

section \<open>PhotoBooth: the page component of src/app/page.tsx\<close>

text \<open>
  The component \<open>PhotoboothApp\<close> keeps its state in React state cells (\<open>useState\<close>) and
  in mutable refs (\<open>useRef\<close>). The model is one record holding both, and every handler
  of the component is a function from the record to the updated record. A handler runs
  to completion and React renders before the next one runs, so a handler reads the
  state cells as the record has them; where a callback outlives the render that made
  it (the interval of the countdown), the values it closed over are stored with it.
  A functional update (\<open>setPhotos((prev) => ...)\<close>) is applied to the record as it
  is when the update is made.

  What the browser supplies is an input of the model: the outcome of drawing and
  encoding a frame, the outcome of each \<open>getUserMedia\<close> attempt, the order and outcome
  of the image decodes, and the wall clock. The record has three fields that are not
  the component's: \<open>now\<close>, the reading \<open>Date.now()\<close> and \<open>new Date()\<close> give while a
  handler runs; \<open>endedTracks\<close>, the media tracks that \<open>track.stop()\<close> has ended; and
  \<open>downloads\<close>, the downloads that \<open>link.click()\<close> has triggered.
\<close>

subsection \<open>Strings and numbers\<close>

text \<open>\<open>Number.prototype.toString\<close> on a non-negative integer: its decimal numeral.\<close>

definition digit :: "nat \<Rightarrow> char" where
  "digit d = ''0123456789'' ! d"

function toString :: "nat \<Rightarrow> string" where
  "toString n = (if n < 10 then [digit n] else toString (n div 10) @ [digit (n mod 10)])"
  by pat_completeness auto
termination
  by (relation "measure (\<lambda>n. n)") auto

declare toString.simps [simp del]

text \<open>The number a decimal numeral denotes, to compare identifiers as numbers.\<close>

definition digitValue :: "char \<Rightarrow> nat" where
  "digitValue c = of_char c - 48"

definition parseNat :: "string \<Rightarrow> nat" where
  "parseNat str = foldl (\<lambda>acc c. 10 * acc + digitValue c) 0 str"

text \<open>\<open>xs.slice(-n)\<close>: the last \<open>n\<close> elements, all of them when there are fewer.\<close>

definition sliceLast :: "nat \<Rightarrow> 'a list \<Rightarrow> 'a list" where
  "sliceLast n xs = drop (length xs - n) xs"

text \<open>\<open>s.includes(sub)\<close>.\<close>

definition startsWith :: "string \<Rightarrow> string \<Rightarrow> bool" where
  "startsWith str sub = (take (length sub) str = sub)"

fun includesStr :: "string \<Rightarrow> string \<Rightarrow> bool" where
  "includesStr [] sub = (sub = [])"
| "includesStr (c # cs) sub = (startsWith (c # cs) sub \<or> includesStr cs sub)"

text \<open>\<open>s.replace(pat, rep)\<close> with a string pattern: the first occurrence only.\<close>

fun replaceFirst :: "string \<Rightarrow> string \<Rightarrow> string \<Rightarrow> string" where
  "replaceFirst [] pat rep = (if pat = [] then rep else [])"
| "replaceFirst (c # cs) pat rep =
     (if startsWith (c # cs) pat then rep @ drop (length pat) (c # cs)
      else c # replaceFirst cs pat rep)"

subsection \<open>Data\<close>

text \<open>\<open>interface Photo\<close>; the field \<open>id\<close> is \<open>pid\<close> here.\<close>

record photo =
  pid :: string
  dataUrl :: string
  timestamp :: nat

text \<open>\<open>interface Filter\<close> and the table \<open>FILTERS\<close>.\<close>

record filter_desc =
  name :: string
  label :: string
  style :: string
  gradient :: string

definition FILTERS :: "filter_desc list" where
  "FILTERS =
    [\<lparr>name = ''none'', label = ''Original'', style = '''',
      gradient = ''from-gray-400 to-gray-600''\<rparr>,
     \<lparr>name = ''grayscale'', label = ''B&W'', style = ''grayscale(100%)'',
      gradient = ''from-gray-800 to-gray-900''\<rparr>,
     \<lparr>name = ''sepia'', label = ''Vintage'', style = ''sepia(100%)'',
      gradient = ''from-amber-600 to-orange-700''\<rparr>,
     \<lparr>name = ''blur'', label = ''Soft'', style = ''blur(1px)'',
      gradient = ''from-blue-400 to-purple-500''\<rparr>,
     \<lparr>name = ''contrast'', label = ''Pop'', style = ''contrast(120%) saturate(130%)'',
      gradient = ''from-pink-500 to-rose-600''\<rparr>]"

text \<open>
  A media track is an object with an identity; \<open>track.stop()\<close> ends it. The tracks that
  have been stopped are kept in the state (\<open>endedTracks\<close>), since a stream that no ref
  points to any more still has its tracks.
\<close>

record media_track =
  kind :: string
  trackId :: nat

record media_stream =
  getTracks :: "media_track list"

record video_element =
  srcObject :: "media_stream option"

record canvas_element =
  width :: nat
  height :: nat
  ctxFilter :: string

text \<open>
  What the interval callback of \<open>startCountdown\<close> closed over: its own counter
  \<open>count\<close>, and through \<open>capturePhoto\<close> the state cells of the render that made it
  (the dependency list of \<open>capturePhoto\<close>).
\<close>

record closure =
  c_photosLength :: nat
  c_maxPhotos :: nat
  c_currentFilter :: string

record countdown_timer =
  count :: int
  captured :: closure

text \<open>A download the page triggered: \<open>link.download\<close> and \<open>link.href\<close> at \<open>link.click()\<close>.\<close>

record download =
  filename :: string
  href :: string

text \<open>
  An entry of the debug log. The source formats it as
  \<open>`${new Date().toLocaleTimeString()}: ${info}`\<close>; the model keeps the clock reading and
  the message apart.
\<close>

type_synonym debug_entry = "nat \<times> string"

record app_state =
  isStreaming :: bool
  photos :: "photo list"
  maxPhotos :: nat
  countdown :: int
  isCapturing :: bool
  showSettings :: bool
  currentFilter :: string
  isSessionActive :: bool
  flashEffect :: bool
  isLoading :: bool
  error :: string
  debugInfo :: "debug_entry list"
  videoRef :: "video_element option"
  canvasRef :: "canvas_element option"
  streamRef :: "media_stream option"
  countdownTimerRef :: "countdown_timer option"
  flashTimerRef :: bool
  flashTimeoutPending :: bool
  now :: nat
  endedTracks :: "nat set"
  downloads :: "download list"

text \<open>
  \<open>countdownTimerRef\<close> is \<open>None\<close> for \<open>null\<close>; every place that clears the interval also
  replaces or nulls the ref, so the interval is scheduled exactly when the ref holds it.
  \<open>flashTimerRef\<close> says whether the ref holds a timer id, \<open>flashTimeoutPending\<close> whether
  that timeout is still to fire (the callback does not null the ref).
\<close>

text \<open>The state of the first render: the \<open>useState\<close> and \<open>useRef\<close> initial values.\<close>

definition initialState :: "nat \<Rightarrow> app_state" where
  "initialState t =
    \<lparr>isStreaming = False, photos = [], maxPhotos = 4, countdown = 0, isCapturing = False,
     showSettings = False, currentFilter = ''none'', isSessionActive = False,
     flashEffect = False, isLoading = False, error = '''', debugInfo = [],
     videoRef = None, canvasRef = Some \<lparr>width = 300, height = 150, ctxFilter = ''none''\<rparr>,
     streamRef = None, countdownTimerRef = None, flashTimerRef = False,
     flashTimeoutPending = False, now = t, endedTracks = {}, downloads = []\<rparr>"

subsection \<open>addDebugInfo\<close>

definition addDebugInfo :: "string \<Rightarrow> app_state \<Rightarrow> app_state" where
  "addDebugInfo info s = s\<lparr>debugInfo := sliceLast 9 (debugInfo s) @ [(now s, info)]\<rparr>"

subsection \<open>stopCamera\<close>

definition stopTrack :: "media_track \<Rightarrow> app_state \<Rightarrow> app_state" where
  "stopTrack track s =
     addDebugInfo (''Stopped track: '' @ kind track)
       (s\<lparr>endedTracks := insert (trackId track) (endedTracks s)\<rparr>)"

definition stopCamera :: "app_state \<Rightarrow> app_state" where
  "stopCamera s =
    (let s1 = addDebugInfo ''Stopping camera...'' s;
         s2 = (case streamRef s1 of
                 None \<Rightarrow> s1
               | Some stream \<Rightarrow> (fold stopTrack (getTracks stream) s1)\<lparr>streamRef := None\<rparr>);
         s3 = (case videoRef s2 of
                 None \<Rightarrow> s2
               | Some video \<Rightarrow> s2\<lparr>videoRef := Some (video\<lparr>srcObject := None\<rparr>)\<rparr>)
     in s3\<lparr>isStreaming := False, error := ''''\<rparr>)"

subsection \<open>resetSession\<close>

definition resetSession :: "app_state \<Rightarrow> app_state" where
  "resetSession s =
    (let s1 = addDebugInfo ''Resetting session...'' s;
         s2 = s1\<lparr>photos := [], isSessionActive := False, isCapturing := False,
                 countdown := 0, showSettings := False, error := ''''\<rparr>;
         s3 = (if countdownTimerRef s2 \<noteq> None then s2\<lparr>countdownTimerRef := None\<rparr> else s2);
         s4 = (if flashTimerRef s3
               then s3\<lparr>flashTimeoutPending := False, flashTimerRef := False\<rparr> else s3)
     in stopCamera s4)"

subsection \<open>capturePhoto\<close>

text \<open>
  What the browser supplies at a capture: whether the canvas gives a 2D context, the
  sizes the video element reports, and the outcome of \<open>drawImage\<close> followed by
  \<open>toDataURL\<close> (the text of the exception thrown, or the data URL).
\<close>

record capture_env =
  ctxAvailable :: bool
  videoWidth :: nat
  clientWidth :: nat
  videoHeight :: nat
  clientHeight :: nat
  encoded :: "string + string"

text \<open>\<open>a || b\<close> on numbers.\<close>

definition orElse :: "nat \<Rightarrow> nat \<Rightarrow> nat" where
  "orElse a b = (if a \<noteq> 0 then a else b)"

text \<open>\<open>FILTERS.find((f) => f.name === currentFilter)?.style || "none"\<close>.\<close>

definition filterStyle :: "string \<Rightarrow> string" where
  "filterStyle current =
     (case find (\<lambda>f. name f = current) FILTERS of
        None \<Rightarrow> ''none''
      | Some f \<Rightarrow> (if style f = [] then ''none'' else style f))"

text \<open>The state cells a handler of the current render reads.\<close>

definition currentClosure :: "app_state \<Rightarrow> closure" where
  "currentClosure s =
     \<lparr>c_photosLength = length (photos s), c_maxPhotos = maxPhotos s,
      c_currentFilter = currentFilter s\<rparr>"

definition capturePhoto :: "closure \<Rightarrow> capture_env \<Rightarrow> app_state \<Rightarrow> app_state" where
  "capturePhoto cl env s =
    (if videoRef s = None \<or> canvasRef s = None \<or> c_photosLength cl \<ge> c_maxPhotos cl then s
     else
       let s1 = addDebugInfo ''Capturing photo...'' s;
           s2 = s1\<lparr>flashEffect := True, flashTimerRef := True, flashTimeoutPending := True\<rparr>
       in if \<not> ctxAvailable env then addDebugInfo ''Canvas context not available'' s2
          else
            let w = orElse (videoWidth env) (orElse (clientWidth env) 640);
                h = orElse (videoHeight env) (orElse (clientHeight env) 480);
                s3 = s2\<lparr>canvasRef :=
                        Some \<lparr>width = w, height = h,
                              ctxFilter = filterStyle (c_currentFilter cl)\<rparr>\<rparr>
            in case encoded env of
                 Inr url \<Rightarrow>
                   addDebugInfo
                     (''Photo captured successfully ('' @ toString (c_photosLength cl + 1)
                        @ ''/'' @ toString (c_maxPhotos cl) @ '')'')
                     (s3\<lparr>photos := photos s3 @
                          [\<lparr>pid = toString (now s3), dataUrl = url, timestamp = now s3\<rparr>]\<rparr>)
               | Inl captureError \<Rightarrow>
                   (addDebugInfo (''Photo capture failed: '' @ captureError) s3)
                     \<lparr>error := ''Failed to capture photo. Please try again.''\<rparr>)"

subsection \<open>startCountdown and its interval\<close>

definition startCountdown :: "app_state \<Rightarrow> app_state" where
  "startCountdown s =
    (if length (photos s) \<ge> maxPhotos s then s
     else s\<lparr>isCapturing := True, countdown := 3,
            countdownTimerRef := Some \<lparr>count = 3, captured = currentClosure s\<rparr>\<rparr>)"

text \<open>
  One firing of the interval callback. A cleared interval does not fire, so without a
  timer in the ref nothing happens.
\<close>

definition intervalTick :: "capture_env \<Rightarrow> app_state \<Rightarrow> app_state" where
  "intervalTick env s =
    (case countdownTimerRef s of
       None \<Rightarrow> s
     | Some timer \<Rightarrow>
         let c = count timer - 1;
             s1 = s\<lparr>countdown := c, countdownTimerRef := Some (timer\<lparr>count := c\<rparr>)\<rparr>
         in if c = 0 then
              let s2 = (if countdownTimerRef s1 \<noteq> None
                        then s1\<lparr>countdownTimerRef := None\<rparr> else s1);
                  s3 = capturePhoto (captured timer) env s2
              in s3\<lparr>countdown := 0, isCapturing := False\<rparr>
            else s1)"

text \<open>The timeout of the flash effect, 200 ms after a capture.\<close>

definition flashTimeout :: "app_state \<Rightarrow> app_state" where
  "flashTimeout s =
    (if flashTimeoutPending s then s\<lparr>flashEffect := False, flashTimeoutPending := False\<rparr>
     else s)"

text \<open>
  The button "Take Photo": rendered in an active session while streaming,
  \<open>disabled={isCapturing || photos.length >= maxPhotos}\<close>, \<open>onClick={startCountdown}\<close>.
\<close>

definition takePhotoDisabled :: "app_state \<Rightarrow> bool" where
  "takePhotoDisabled s = (isCapturing s \<or> length (photos s) \<ge> maxPhotos s)"

definition clickTakePhoto :: "app_state \<Rightarrow> app_state" where
  "clickTakePhoto s =
    (if isSessionActive s \<and> isStreaming s \<and> \<not> takePhotoDisabled s then startCountdown s
     else s)"

definition handleMaxPhotosChange :: "nat \<Rightarrow> app_state \<Rightarrow> app_state" where
  "handleMaxPhotosChange v s = s\<lparr>maxPhotos := v\<rparr>"

subsection \<open>startCamera\<close>

text \<open>
  A thrown value: the \<open>name\<close> and \<open>message\<close> of an \<open>Error\<close> (every value thrown here is
  one, so \<open>error instanceof Error\<close> holds). A template literal prints it as
  \<open>name: message\<close>; \<open>error.message\<close> reads the message alone.
\<close>

record js_error =
  errName :: string
  message :: string

definition errorText :: "js_error \<Rightarrow> string" where
  "errorText e = errName e @ '': '' @ message e"

definition newError :: "string \<Rightarrow> js_error" where
  "newError msg = \<lparr>errName = ''Error'', message = msg\<rparr>"

text \<open>
  What the video element signals after the stream is assigned: \<open>loadedmetadata\<close>, an
  \<open>error\<close> event, or neither within the 3 seconds of the timeout.
\<close>

datatype sink_signal = LoadedMetadata | VideoErrorEvent string | LoadTimeout

text \<open>
  What the browser answers during \<open>startCamera\<close>: whether \<open>getUserMedia\<close> exists, what
  \<open>enumerateDevices\<close> gives (an exception, or the number of video inputs), the outcome
  of each of the three \<open>getUserMedia\<close> calls, whether \<open>play()\<close> rejects, and the signal
  of the video element.
\<close>

record camera_env =
  getUserMediaSupported :: bool
  enumerateDevices :: "js_error + nat"
  idealConstraints :: "js_error + media_stream"
  basicConstraints :: "js_error + media_stream"
  minimalConstraints :: "js_error + media_stream"
  playRejects :: "js_error option"
  sink :: sink_signal

text \<open>
  Lines 133 to 169: the three attempts, from the most to the least specific constraints.
  \<open>Inl\<close> is the exception of the last attempt, which nothing in the block catches.
\<close>

definition requestCameraAccess ::
    "camera_env \<Rightarrow> app_state \<Rightarrow> (js_error + media_stream) \<times> app_state" where
  "requestCameraAccess env s =
    (case idealConstraints env of
       Inr stream \<Rightarrow> (Inr stream, addDebugInfo ''Camera access granted with ideal constraints'' s)
     | Inl constraintError \<Rightarrow>
         let s1 = addDebugInfo
                    (''Ideal constraints failed: '' @ errorText constraintError
                       @ '', trying basic constraints'') s
         in case basicConstraints env of
              Inr stream \<Rightarrow>
                (Inr stream, addDebugInfo ''Camera access granted with basic constraints'' s1)
            | Inl basicError \<Rightarrow>
                let s2 = addDebugInfo
                           (''Basic constraints failed: '' @ errorText basicError
                              @ '', trying minimal constraints'') s1
                in case minimalConstraints env of
                     Inr stream \<Rightarrow>
                       (Inr stream,
                        addDebugInfo ''Camera access granted with minimal constraints'' s2)
                   | Inl minimalError \<Rightarrow> (Inl minimalError, s2))"

text \<open>The inner \<open>try\<close> around \<open>enumerateDevices\<close>: its \<open>catch\<close> swallows every exception,
  the one thrown for zero devices too.\<close>

definition checkDevices :: "camera_env \<Rightarrow> app_state \<Rightarrow> app_state" where
  "checkDevices env s =
    (case enumerateDevices env of
       Inl deviceError \<Rightarrow> addDebugInfo ''Could not enumerate devices, proceeding anyway'' s
     | Inr n \<Rightarrow>
         let s1 = addDebugInfo (''Found '' @ toString n @ '' video devices'') s
         in if n = 0 then addDebugInfo ''Could not enumerate devices, proceeding anyway'' s1
            else s1)"

text \<open>
  The promise that waits for the video element, up to the signal that settles it. The
  callback of the timeout reads the \<open>isStreaming\<close> of the first render (the dependency
  list of \<open>startCamera\<close> is \<open>[addDebugInfo]\<close>), which is \<open>false\<close>, so its test always
  passes. What the timeout does when it fires after the promise is settled is not part
  of this function.
\<close>

definition waitForVideo :: "camera_env \<Rightarrow> app_state \<Rightarrow> (js_error + unit) \<times> app_state" where
  "waitForVideo env s =
    (let s1 = (case playRejects env of
                 None \<Rightarrow> s
               | Some playError \<Rightarrow> addDebugInfo (''Video play error: '' @ errorText playError) s)
     in case sink env of
          LoadedMetadata \<Rightarrow>
            (Inr (), (addDebugInfo ''Video metadata loaded'' s1)\<lparr>isStreaming := True\<rparr>)
        | VideoErrorEvent e \<Rightarrow>
            (Inl (newError ''Video failed to load''), addDebugInfo (''Video error: '' @ e) s1)
        | LoadTimeout \<Rightarrow>
            (Inr (),
             (addDebugInfo ''Video loading timeout, assuming success''
                (addDebugInfo ''Checking timeout condition'' s1))\<lparr>isStreaming := True\<rparr>))"

text \<open>
  The body of the outer \<open>try\<close>. The model runs \<open>startCamera\<close> in one piece, so no render
  mounts the video element during the 100 ms wait: an element that is missing before
  the wait is missing after it.
\<close>

definition startCameraTry :: "camera_env \<Rightarrow> app_state \<Rightarrow> (js_error + unit) \<times> app_state" where
  "startCameraTry env s =
    (case videoRef s of
       None \<Rightarrow>
         (Inl (newError ''Video element not found after waiting''),
          addDebugInfo ''Video element not found - waiting for mount'' s)
     | Some videoElement \<Rightarrow>
         let s1 = addDebugInfo ''Video element found and captured'' s
         in if \<not> getUserMediaSupported env
            then (Inl (newError ''getUserMedia is not supported in this browser''), s1)
            else
              let s2 = addDebugInfo ''getUserMedia is supported'' s1;
                  s3 = checkDevices env s2
              in case requestCameraAccess env s3 of
                   (Inl e, s4) \<Rightarrow> (Inl e, s4)
                 | (Inr stream, s4) \<Rightarrow>
                     let s5 = s4\<lparr>videoRef := Some (videoElement\<lparr>srcObject := Some stream\<rparr>),
                                 streamRef := Some stream\<rparr>;
                         s6 = addDebugInfo ''Stream assigned to video element'' s5
                     in case waitForVideo env s6 of
                          (Inl e, s7) \<Rightarrow> (Inl e, s7)
                        | (Inr u, s7) \<Rightarrow>
                            (Inr (), addDebugInfo ''Camera started successfully'' s7))"

text \<open>The message the \<open>catch\<close> of \<open>startCamera\<close> puts in the error slot.\<close>

definition classifyError :: "string \<Rightarrow> string" where
  "classifyError errorMessage =
    (if includesStr errorMessage ''Permission denied''
        \<or> includesStr errorMessage ''NotAllowedError''
     then ''Camera permission denied. Please allow camera access and try again.''
     else if includesStr errorMessage ''NotFoundError''
        \<or> includesStr errorMessage ''No camera devices''
     then ''No camera found. Please connect a camera device.''
     else if includesStr errorMessage ''NotSupportedError''
     then ''Camera not supported in this browser. Try Chrome, Firefox, or Safari.''
     else if includesStr errorMessage ''getUserMedia is not supported''
     then ''Camera access not supported. Please use HTTPS or a modern browser.''
     else if includesStr errorMessage ''Video element not found''
     then ''Camera interface not ready. Please try again in a moment.''
     else ''Camera error: '' @ errorMessage)"

definition stopTrackQuietly :: "media_track \<Rightarrow> app_state \<Rightarrow> app_state" where
  "stopTrackQuietly track s = s\<lparr>endedTracks := insert (trackId track) (endedTracks s)\<rparr>"

definition startCamera :: "camera_env \<Rightarrow> app_state \<Rightarrow> app_state" where
  "startCamera env s =
    (let s1 = addDebugInfo ''Starting camera...'' (s\<lparr>isLoading := True, error := []\<rparr>);
         s2 = (case startCameraTry env s1 of
                 (Inr u, s') \<Rightarrow> s'
               | (Inl e, s') \<Rightarrow>
                   let errorMessage = message e;
                       s3 = addDebugInfo (''Camera error: '' @ errorMessage) s';
                       s4 = s3\<lparr>error := classifyError errorMessage\<rparr>
                   in case streamRef s4 of
                        None \<Rightarrow> s4
                      | Some stream \<Rightarrow>
                          (fold stopTrackQuietly (getTracks stream) s4)\<lparr>streamRef := None\<rparr>)
     in s2\<lparr>isLoading := False\<rparr>)"

text \<open>
  What React commits after a handler: the video element is in the tree of an active
  session only (the welcome screen has none), and \<open>videoRef.current\<close> follows it.
\<close>

definition commit :: "app_state \<Rightarrow> app_state" where
  "commit s =
    (if isSessionActive s
     then (case videoRef s of
             None \<Rightarrow> s\<lparr>videoRef := Some \<lparr>srcObject = None\<rparr>\<rparr>
           | Some v \<Rightarrow> s)
     else s\<lparr>videoRef := None\<rparr>)"

text \<open>\<open>startSession\<close>: the render of the active session happens during its 100 ms wait.\<close>

definition startSession :: "camera_env \<Rightarrow> app_state \<Rightarrow> app_state" where
  "startSession env s = startCamera env (commit (s\<lparr>isSessionActive := True\<rparr>))"

subsection \<open>exportPhotos\<close>

datatype format = Png | Jpeg | Pdf

definition formatName :: "format \<Rightarrow> string" where
  "formatName fmt = (case fmt of Png \<Rightarrow> ''png'' | Jpeg \<Rightarrow> ''jpeg'' | Pdf \<Rightarrow> ''pdf'')"

text \<open>
  What happens to one download link: \<open>link.click()\<close> is reached and nothing throws, or an
  exception is thrown before the click (no download), or after it.
\<close>

datatype link_outcome = Clicked | ThrowsBeforeClick js_error | ThrowsAfterClick js_error

fun reachesClick :: "link_outcome \<Rightarrow> bool" where
  "reachesClick Clicked = True"
| "reachesClick (ThrowsBeforeClick e) = False"
| "reachesClick (ThrowsAfterClick e) = True"

text \<open>The \<open>else\<close> branch of \<open>exportPhotos\<close>: one link per photo, each in its own \<open>try\<close>.\<close>

definition photoLink :: "format \<Rightarrow> nat \<Rightarrow> photo \<Rightarrow> download" where
  "photoLink fmt index p =
    \<lparr>filename = ''photo-'' @ toString (index + 1) @ ''.'' @ formatName fmt,
     href = (if fmt = Jpeg then replaceFirst (dataUrl p) ''image/png'' ''image/jpeg''
             else dataUrl p)\<rparr>"

definition downloadPhoto ::
    "format \<Rightarrow> (nat \<Rightarrow> link_outcome) \<Rightarrow> nat \<times> photo \<Rightarrow> app_state \<Rightarrow> app_state" where
  "downloadPhoto fmt outcome ip s =
    (let index = fst ip; p = snd ip
     in case outcome index of
          Clicked \<Rightarrow> s\<lparr>downloads := downloads s @ [photoLink fmt index p]\<rparr>
        | ThrowsBeforeClick downloadError \<Rightarrow>
            addDebugInfo
              (''Download error for photo '' @ toString index @ '': '' @ errorText downloadError) s
        | ThrowsAfterClick downloadError \<Rightarrow>
            addDebugInfo
              (''Download error for photo '' @ toString index @ '': '' @ errorText downloadError)
              (s\<lparr>downloads := downloads s @ [photoLink fmt index p]\<rparr>))"

text \<open>The collage: the constants of the \<open>pdf\<close> branch.\<close>

definition photosPerRow :: nat where "photosPerRow = 2"
definition photoSize :: nat where "photoSize = 300"
definition margin :: nat where "margin = 20"

text \<open>\<open>ctx.drawImage(img, x, y, photoSize, photoSize)\<close>, \<open>img\<close> the image made for
  \<open>photos[imageIndex]\<close>, with its \<open>src\<close>.\<close>

record draw_call =
  imageIndex :: nat
  imageSrc :: string
  dx :: nat
  dy :: nat
  dWidth :: nat
  dHeight :: nat

text \<open>
  What the callbacks of one collage export share: the export canvas (its size and the
  images drawn on it), and the variables \<open>loadedCount\<close> and \<open>totalPhotos\<close>. \<open>images\<close>
  holds the \<open>src\<close> of the image object that \<open>photos.forEach\<close> makes for each photo, in
  the order of the photos.
\<close>

record collage_job =
  images :: "string list"
  canvasWidth :: nat
  canvasHeight :: nat
  drawn :: "draw_call list"
  loadedCount :: nat
  totalPhotos :: nat

definition startCollage :: "photo list \<Rightarrow> collage_job" where
  "startCollage ps =
    \<lparr>images = map dataUrl ps,
     canvasWidth = photosPerRow * photoSize + (photosPerRow + 1) * margin,
     canvasHeight =
       nat \<lceil>real (length ps) / real photosPerRow\<rceil> * (photoSize + margin) + margin,
     drawn = [], loadedCount = 0, totalPhotos = length ps\<rparr>"

text \<open>
  A decode that settles: \<open>img.onload\<close> or \<open>img.onerror\<close> of the image of one index. With
  \<open>onload\<close> come the exception of \<open>drawImage\<close> if it throws, the data URL of the canvas,
  and what happens to the download link if the callback gets that far.
\<close>

record load_env =
  drawError :: "js_error option"
  canvasDataUrl :: string
  finish :: link_outcome

datatype settle = OnLoad nat load_env | OnError nat

definition collageLink :: "load_env \<Rightarrow> app_state \<Rightarrow> download" where
  "collageLink env s =
    \<lparr>filename = ''photobooth-session-'' @ toString (now s) @ ''.png'',
     href = canvasDataUrl env\<rparr>"

text \<open>
  Only the images of the export have callbacks: a settled decode of an index beyond
  them does not occur, and changes nothing.
\<close>

fun collageSettle :: "settle \<Rightarrow> collage_job \<times> app_state \<Rightarrow> collage_job \<times> app_state" where
  "collageSettle (OnLoad index env) (job, s) =
    (if length (images job) \<le> index then (job, s)
     else
       case drawError env of
         Some e \<Rightarrow> (job, addDebugInfo (''Draw error: '' @ errorText e) s)
       | None \<Rightarrow>
           let row = nat \<lfloor>real index / real photosPerRow\<rfloor>;
               col = index mod photosPerRow;
               x = margin + col * (photoSize + margin);
               y = margin + row * (photoSize + margin);
               job' = job\<lparr>drawn := drawn job @
                            [\<lparr>imageIndex = index, imageSrc = images job ! index,
                              dx = x, dy = y, dWidth = photoSize, dHeight = photoSize\<rparr>],
                          loadedCount := loadedCount job + 1\<rparr>
           in if loadedCount job' = totalPhotos job' then
                (case finish env of
                   Clicked \<Rightarrow>
                     (job', addDebugInfo ''Photo collage exported successfully''
                              (s\<lparr>downloads := downloads s @ [collageLink env s]\<rparr>))
                 | ThrowsBeforeClick e \<Rightarrow>
                     (job', addDebugInfo (''Export error: '' @ errorText e) s)
                 | ThrowsAfterClick e \<Rightarrow>
                     (job', addDebugInfo (''Export error: '' @ errorText e)
                              (s\<lparr>downloads := downloads s @ [collageLink env s]\<rparr>)))
              else (job', s))"
| "collageSettle (OnError index) (job, s) =
    (if length (images job) \<le> index then (job, s)
     else
       let s1 = addDebugInfo (''Image load error for photo '' @ toString index) s;
           job' = job\<lparr>loadedCount := loadedCount job + 1\<rparr>
       in if loadedCount job' = totalPhotos job'
          then (job', addDebugInfo ''Completed with errors'' s1)
          else (job', s1))"

text \<open>
  \<open>exportPhotos(format)\<close>. For the collage it returns the job its image callbacks
  share; the decodes settle later, one \<open>collageSettle\<close> each.
\<close>

record export_env =
  exportCtxAvailable :: bool
  linkOutcome :: "nat \<Rightarrow> link_outcome"

definition exportPhotos ::
    "format \<Rightarrow> export_env \<Rightarrow> app_state \<Rightarrow> collage_job option \<times> app_state" where
  "exportPhotos fmt env s =
    (if length (photos s) = 0 then (None, s)
     else
       let s1 = addDebugInfo
                  (''Exporting '' @ toString (length (photos s)) @ '' photos as ''
                     @ formatName fmt) s
       in if fmt = Pdf then
            (if \<not> exportCtxAvailable env
             then (None, addDebugInfo ''Could not get export canvas context'' s1)
             else (Some (startCollage (photos s)), s1))
          else
            (None,
             addDebugInfo
               (toString (length (photos s)) @ '' photos exported as '' @ formatName fmt)
               (fold (downloadPhoto fmt (linkOutcome env)) (enumerate 0 (photos s)) s1)))"

text \<open>A collage export followed by the decodes that settle, in the order they settle.\<close>

definition exportCollage ::
    "export_env \<Rightarrow> settle list \<Rightarrow> app_state \<Rightarrow> collage_job option \<times> app_state" where
  "exportCollage env settles s =
    (case exportPhotos Pdf env s of
       (None, s') \<Rightarrow> (None, s')
     | (Some job, s') \<Rightarrow>
         (case fold collageSettle settles (job, s') of (job', s'') \<Rightarrow> (Some job', s'')))"

text \<open>The index of the image a settled decode belongs to, and whether it loaded.\<close>

fun settleIndex :: "settle \<Rightarrow> nat" where
  "settleIndex (OnLoad index env) = index"
| "settleIndex (OnError index) = index"

subsection \<open>Events\<close>

text \<open>
  What can happen to the page, and the clock reading at which it happens. An event is a
  call of its handler, whether or not the page shows the control for it at the time:
  \<open>StartCountdown\<close> calls \<open>startCountdown\<close> whatever the button shows. \<open>ClickTakePhoto\<close>
  alone is a click on the button, which does nothing while the button is disabled or
  not rendered. \<open>StartCamera\<close> is the handler of the "Start Camera" button, which clears
  the error slot before it calls \<open>startCamera\<close>. After each handler React commits the
  render.
\<close>

datatype event =
    StartSession camera_env
  | StartCamera camera_env
  | StartCountdown
  | ClickTakePhoto
  | IntervalTick capture_env
  | FlashTimeout
  | SetCurrentFilter string
  | ToggleSettings
  | StopCamera
  | ResetSession

fun handle :: "event \<Rightarrow> app_state \<Rightarrow> app_state" where
  "handle (StartSession env) s = startSession env s"
| "handle (StartCamera env) s = startCamera env (s\<lparr>error := []\<rparr>)"
| "handle StartCountdown s = startCountdown s"
| "handle ClickTakePhoto s = clickTakePhoto s"
| "handle (IntervalTick env) s = intervalTick env s"
| "handle FlashTimeout s = flashTimeout s"
| "handle (SetCurrentFilter f) s = s\<lparr>currentFilter := f\<rparr>"
| "handle ToggleSettings s = s\<lparr>showSettings := \<not> showSettings s\<rparr>"
| "handle StopCamera s = stopCamera s"
| "handle ResetSession s = resetSession s"

definition dispatch :: "nat \<times> event \<Rightarrow> app_state \<Rightarrow> app_state" where
  "dispatch te s = commit (handle (snd te) (s\<lparr>now := fst te\<rparr>))"

definition run :: "(nat \<times> event) list \<Rightarrow> app_state \<Rightarrow> app_state" where
  "run trace s = fold dispatch trace s"

text \<open>The clock readings at which the interval callback fires, in the order of a trace.\<close>

fun isIntervalTick :: "event \<Rightarrow> bool" where
  "isIntervalTick (IntervalTick env) = True"
| "isIntervalTick e = False"

definition tickTimes :: "(nat \<times> event) list \<Rightarrow> nat list" where
  "tickTimes trace = map fst (filter (\<lambda>te. isIntervalTick (snd te)) trace)"

subsection \<open>Example states\<close>

text \<open>A stream with one video track.\<close>

definition exampleStream :: media_stream where
  "exampleStream = \<lparr>getTracks = [\<lparr>kind = ''video'', trackId = 7\<rparr>]\<rparr>"

text \<open>
  A session in progress: the camera is live, one photo is taken, the Vintage filter is
  chosen, and a countdown has ticked once.
\<close>

definition liveSession :: app_state where
  "liveSession =
    (initialState 9000)
      \<lparr>isStreaming := True,
       photos := [\<lparr>pid = ''5000'', dataUrl = ''data:image/png;base64,AAAA'',
                   timestamp = 5000\<rparr>],
       countdown := 2, isCapturing := True, currentFilter := ''sepia'',
       isSessionActive := True,
       videoRef := Some \<lparr>srcObject = Some exampleStream\<rparr>,
       streamRef := Some exampleStream,
       countdownTimerRef :=
         Some \<lparr>count = 2,
               captured = \<lparr>c_photosLength = 1, c_maxPhotos = 4,
                           c_currentFilter = ''sepia''\<rparr>\<rparr>\<rparr>"

text \<open>A session with two photos, ready for export.\<close>

definition twoPhotos :: app_state where
  "twoPhotos =
    (initialState 20000)
      \<lparr>isStreaming := True,
       photos := [\<lparr>pid = ''5000'', dataUrl = ''data:image/png;base64,AAAA'',
                   timestamp = 5000\<rparr>,
                  \<lparr>pid = ''9000'', dataUrl = ''data:image/png;base64,BBBB'',
                   timestamp = 9000\<rparr>],
       isSessionActive := True,
       videoRef := Some \<lparr>srcObject = Some exampleStream\<rparr>,
       streamRef := Some exampleStream\<rparr>"

text \<open>A session with three photos: the collage has a second row.\<close>

definition threePhotos :: app_state where
  "threePhotos =
    twoPhotos
      \<lparr>photos := photos twoPhotos @
         [\<lparr>pid = ''13000'', dataUrl = ''data:image/png;base64,DDDD'',
           timestamp = 13000\<rparr>]\<rparr>"

text \<open>
  Exports in which every link is clicked, and in which the link of the first photo
  throws before its click; an image that loads, is drawn, and whose callback can
  finish the collage.
\<close>

definition allClicked :: export_env where
  "allClicked = \<lparr>exportCtxAvailable = True, linkOutcome = (\<lambda>index. Clicked)\<rparr>"

definition firstLinkThrows :: export_env where
  "firstLinkThrows =
    \<lparr>exportCtxAvailable = True,
     linkOutcome = (\<lambda>index. if index = 0
                             then ThrowsBeforeClick (newError ''appendChild failed'')
                             else Clicked)\<rparr>"

definition loadsFine :: load_env where
  "loadsFine =
    \<lparr>drawError = None, canvasDataUrl = ''data:image/png;base64,CCCC'', finish = Clicked\<rparr>"

text \<open>
  The welcome screen some time after the page was mounted: the mount effect has logged
  its five lines, and its poll for the video element has filled the rest of the log.
\<close>

definition fullLogState :: app_state where
  "fullLogState =
    (initialState 1000)
      \<lparr>debugInfo :=
         [(1, ''PhotoBooth initialized''), (1, ''Browser: Mozilla/5.0''),
          (1, ''Protocol: https:''), (1, ''getUserMedia supported: true''),
          (1, ''Secure context: true''), (1, ''Video element not yet mounted''),
          (101, ''Video element not yet mounted''), (201, ''Video element not yet mounted''),
          (301, ''Video element not yet mounted''), (401, ''Video element not yet mounted'')]\<rparr>"

text \<open>A camera that grants the stream at the first attempt, and a frame that encodes.\<close>

definition goodCamera :: camera_env where
  "goodCamera =
    \<lparr>getUserMediaSupported = True, enumerateDevices = Inr 1,
     idealConstraints = Inr exampleStream, basicConstraints = Inr exampleStream,
     minimalConstraints = Inr exampleStream, playRejects = None, sink = LoadedMetadata\<rparr>"

definition goodFrame :: capture_env where
  "goodFrame =
    \<lparr>ctxAvailable = True, videoWidth = 640, clientWidth = 640, videoHeight = 480,
     clientHeight = 480, encoded = Inr ''data:image/png;base64,AAAA''\<rparr>"

text \<open>
  A camera that rejects the ideal constraints and grants the stream for the basic ones,
  and the state in which \<open>startSession\<close> calls \<open>startCamera\<close>: the session is active and
  the video element is mounted.
\<close>

definition fallbackCamera :: camera_env where
  "fallbackCamera =
    goodCamera
      \<lparr>idealConstraints :=
         Inl \<lparr>errName = ''OverconstrainedError'',
               message = ''Constraints could not be satisfied''\<rparr>\<rparr>"

definition welcomeAfterStart :: app_state where
  "welcomeAfterStart = commit ((initialState 0)\<lparr>isSessionActive := True\<rparr>)"

text \<open>
  A camera whose three attempts are all refused, and the session that tried to start
  with it: the session is active, no stream is held, and the error slot tells the user.
\<close>

definition deniedCamera :: camera_env where
  "deniedCamera =
    goodCamera
      \<lparr>idealConstraints :=
         Inl \<lparr>errName = ''NotAllowedError'', message = ''Permission denied''\<rparr>,
       basicConstraints :=
         Inl \<lparr>errName = ''NotAllowedError'', message = ''Permission denied''\<rparr>,
       minimalConstraints :=
         Inl \<lparr>errName = ''NotAllowedError'', message = ''Permission denied''\<rparr>\<rparr>"

definition failedStart :: app_state where
  "failedStart = startSession deniedCamera (initialState 0)"

text \<open>
  The session starts, a countdown runs to its capture, and a second countdown is asked
  for, with three more firings of the interval. The events are a second apart.
\<close>

definition twoCountdowns :: "(nat \<times> event) list" where
  "twoCountdowns =
    [(1000, StartSession goodCamera), (2000, StartCountdown),
     (3000, IntervalTick goodFrame), (4000, IntervalTick goodFrame),
     (5000, IntervalTick goodFrame), (6000, StartCountdown),
     (7000, IntervalTick goodFrame), (8000, IntervalTick goodFrame),
     (9000, IntervalTick goodFrame)]"

text \<open>
  The same events, with the wall clock set back by four seconds after the first
  capture: the second countdown fires at the readings of the first.
\<close>

definition clockSetBack :: "(nat \<times> event) list" where
  "clockSetBack =
    [(1000, StartSession goodCamera), (2000, StartCountdown),
     (3000, IntervalTick goodFrame), (4000, IntervalTick goodFrame),
     (5000, IntervalTick goodFrame), (2000, StartCountdown),
     (3000, IntervalTick goodFrame), (4000, IntervalTick goodFrame),
     (5000, IntervalTick goodFrame)]"

text \<open>A session started on the first render, with the camera live and no photo yet.\<close>

definition sessionReady :: app_state where
  "sessionReady = run [(1000, StartSession goodCamera)] (initialState 0)"

text \<open>A countdown that has ticked once, in a session started on the first render.\<close>

definition runningCountdown :: app_state where
  "runningCountdown =
    run [(1000, StartSession goodCamera), (2000, StartCountdown),
         (3000, IntervalTick goodFrame)] (initialState 0)"

subsection \<open>Invariants of a session\<close>

text \<open>
  The part of the state that the capture cap, the countdown and the photo identifiers
  depend on: the photos, the target count, the countdown timer, the clock and the
  capturing flag.
\<close>

definition session_part ::
    "app_state \<Rightarrow> photo list \<times> nat \<times> countdown_timer option \<times> nat \<times> bool" where
  "session_part s = (photos s, maxPhotos s, countdownTimerRef s, now s, isCapturing s)"

text \<open>
  The photos do not exceed the target count, and a countdown timer, when there is one,
  closed over the present number of photos and the present target count.
\<close>

definition cap_ok :: "app_state \<Rightarrow> bool" where
  "cap_ok s =
    (length (photos s) \<le> maxPhotos s \<and>
     (case countdownTimerRef s of
        None \<Rightarrow> True
      | Some timer \<Rightarrow>
          c_photosLength (captured timer) = length (photos s) \<and>
          c_maxPhotos (captured timer) = maxPhotos s))"

text \<open>While a countdown timer is set, the capturing flag is set.\<close>

definition countdown_shown :: "app_state \<Rightarrow> bool" where
  "countdown_shown s = (countdownTimerRef s = None \<or> isCapturing s)"

text \<open>
  The identifiers of the photos, read as numbers, increase strictly along the sequence
  and stay below the bound \<open>b\<close>.
\<close>

definition ids_below :: "nat \<Rightarrow> app_state \<Rightarrow> bool" where
  "ids_below b s =
    (sorted_wrt (<) (map (parseNat \<circ> pid) (photos s)) \<and>
     list_all (\<lambda>p. parseNat (pid p) < b) (photos s))"

text \<open>A drawn image is the image of its index and sits in the grid cell of that index.\<close>

definition in_cell :: "string list \<Rightarrow> draw_call \<Rightarrow> bool" where
  "in_cell imgs d =
    (imageIndex d < length imgs \<and> imageSrc d = imgs ! imageIndex d \<and>
     dx d = margin + (imageIndex d mod photosPerRow) * (photoSize + margin) \<and>
     dy d = margin + (imageIndex d div photosPerRow) * (photoSize + margin) \<and>
     dWidth d = photoSize \<and> dHeight d = photoSize)"

text \<open>
  The call of \<open>drawImage\<close> for the image of index \<open>i\<close>, and the settled decodes that
  make it: an \<open>onload\<close> of one of the export's images whose \<open>drawImage\<close> does not throw.
\<close>

definition cellDraw :: "string list \<Rightarrow> nat \<Rightarrow> draw_call" where
  "cellDraw imgs i =
    \<lparr>imageIndex = i, imageSrc = imgs ! i,
     dx = margin + (i mod photosPerRow) * (photoSize + margin),
     dy = margin + (i div photosPerRow) * (photoSize + margin),
     dWidth = photoSize, dHeight = photoSize\<rparr>"

fun drawsImage :: "nat \<Rightarrow> settle \<Rightarrow> bool" where
  "drawsImage n (OnLoad index env) = (index < n \<and> drawError env = None)"
| "drawsImage n (OnError index) = False"

section \<open>Properties\<close>

subsection \<open>The rolling debug log\<close>

lemma sliceLast_snoc: "sliceLast 9 xs @ [e] = sliceLast 10 (xs @ [e])"
  by (simp add: sliceLast_def)

lemma sliceLast_append: "sliceLast n (sliceLast n xs @ ys) = sliceLast n (xs @ ys)"
proof (cases "length xs \<le> n")
  case True
  then show ?thesis by (simp add: sliceLast_def)
next
  case False
  then have "length xs - n + length ys = length xs + length ys - n"
    by arith
  with False show ?thesis by (simp add: sliceLast_def add.commute)
qed

lemma sliceLast_short: "length xs \<le> n \<Longrightarrow> sliceLast n xs = xs"
  by (simp add: sliceLast_def)

lemma addDebugInfo_fields [simp]:
  "isStreaming (addDebugInfo i s) = isStreaming s"
  "photos (addDebugInfo i s) = photos s"
  "maxPhotos (addDebugInfo i s) = maxPhotos s"
  "countdown (addDebugInfo i s) = countdown s"
  "isCapturing (addDebugInfo i s) = isCapturing s"
  "showSettings (addDebugInfo i s) = showSettings s"
  "currentFilter (addDebugInfo i s) = currentFilter s"
  "isSessionActive (addDebugInfo i s) = isSessionActive s"
  "flashEffect (addDebugInfo i s) = flashEffect s"
  "isLoading (addDebugInfo i s) = isLoading s"
  "error (addDebugInfo i s) = error s"
  "videoRef (addDebugInfo i s) = videoRef s"
  "canvasRef (addDebugInfo i s) = canvasRef s"
  "streamRef (addDebugInfo i s) = streamRef s"
  "countdownTimerRef (addDebugInfo i s) = countdownTimerRef s"
  "flashTimerRef (addDebugInfo i s) = flashTimerRef s"
  "flashTimeoutPending (addDebugInfo i s) = flashTimeoutPending s"
  "now (addDebugInfo i s) = now s"
  "endedTracks (addDebugInfo i s) = endedTracks s"
  "downloads (addDebugInfo i s) = downloads s"
  "app_state.more (addDebugInfo i s) = app_state.more s"
  by (simp_all add: addDebugInfo_def)

lemma addDebugInfo_debugInfo:
  "debugInfo (addDebugInfo i s) = sliceLast 10 (debugInfo s @ [(now s, i)])"
  by (simp add: addDebugInfo_def sliceLast_snoc)

lemma initialState_fields [simp]:
  "isStreaming (initialState t) = False"
  "photos (initialState t) = []"
  "maxPhotos (initialState t) = 4"
  "countdown (initialState t) = 0"
  "isCapturing (initialState t) = False"
  "showSettings (initialState t) = False"
  "currentFilter (initialState t) = ''none''"
  "isSessionActive (initialState t) = False"
  "error (initialState t) = []"
  "debugInfo (initialState t) = []"
  "videoRef (initialState t) = None"
  "streamRef (initialState t) = None"
  "countdownTimerRef (initialState t) = None"
  "now (initialState t) = t"
  "endedTracks (initialState t) = {}"
  "downloads (initialState t) = []"
  by (simp_all add: initialState_def)

subsection \<open>Stopping the tracks of a stream\<close>

lemma stopTracks_fields [simp]:
  "isStreaming (fold stopTrack ts s) = isStreaming s"
  "photos (fold stopTrack ts s) = photos s"
  "maxPhotos (fold stopTrack ts s) = maxPhotos s"
  "countdown (fold stopTrack ts s) = countdown s"
  "isCapturing (fold stopTrack ts s) = isCapturing s"
  "showSettings (fold stopTrack ts s) = showSettings s"
  "currentFilter (fold stopTrack ts s) = currentFilter s"
  "isSessionActive (fold stopTrack ts s) = isSessionActive s"
  "flashEffect (fold stopTrack ts s) = flashEffect s"
  "isLoading (fold stopTrack ts s) = isLoading s"
  "error (fold stopTrack ts s) = error s"
  "videoRef (fold stopTrack ts s) = videoRef s"
  "canvasRef (fold stopTrack ts s) = canvasRef s"
  "streamRef (fold stopTrack ts s) = streamRef s"
  "countdownTimerRef (fold stopTrack ts s) = countdownTimerRef s"
  "flashTimerRef (fold stopTrack ts s) = flashTimerRef s"
  "flashTimeoutPending (fold stopTrack ts s) = flashTimeoutPending s"
  "now (fold stopTrack ts s) = now s"
  "downloads (fold stopTrack ts s) = downloads s"
  "app_state.more (fold stopTrack ts s) = app_state.more s"
  by (induction ts arbitrary: s; simp add: stopTrack_def)+

lemma stopTracks_ended [simp]:
  "endedTracks (fold stopTrack ts s) = endedTracks s \<union> trackId ` set ts"
  by (induction ts arbitrary: s) (auto simp: stopTrack_def)

lemma stopTracks_debugInfo:
  "debugInfo (fold stopTrack ts (addDebugInfo e s)) =
     sliceLast 10
       (debugInfo s @ (now s, e) # map (\<lambda>t. (now s, ''Stopped track: '' @ kind t)) ts)"
proof (induction ts rule: rev_induct)
  case Nil
  show ?case by (simp add: addDebugInfo_debugInfo)
next
  case (snoc t ts)
  let ?old = "debugInfo s @ (now s, e) # map (\<lambda>t. (now s, ''Stopped track: '' @ kind t)) ts"
  have "debugInfo (fold stopTrack (ts @ [t]) (addDebugInfo e s)) =
        sliceLast 10 (debugInfo (fold stopTrack ts (addDebugInfo e s))
          @ [(now s, ''Stopped track: '' @ kind t)])"
    by (simp add: stopTrack_def addDebugInfo_debugInfo)
  also have "\<dots> = sliceLast 10 (sliceLast 10 ?old @ [(now s, ''Stopped track: '' @ kind t)])"
    by (simp only: snoc.IH)
  also have "\<dots> = sliceLast 10 (?old @ [(now s, ''Stopped track: '' @ kind t)])"
    by (rule sliceLast_append)
  finally show ?case by simp
qed

subsection \<open>stopCamera, field by field\<close>

lemma stopCamera_fields [simp]:
  "isStreaming (stopCamera s) = False"
  "photos (stopCamera s) = photos s"
  "maxPhotos (stopCamera s) = maxPhotos s"
  "countdown (stopCamera s) = countdown s"
  "isCapturing (stopCamera s) = isCapturing s"
  "showSettings (stopCamera s) = showSettings s"
  "currentFilter (stopCamera s) = currentFilter s"
  "isSessionActive (stopCamera s) = isSessionActive s"
  "flashEffect (stopCamera s) = flashEffect s"
  "isLoading (stopCamera s) = isLoading s"
  "error (stopCamera s) = []"
  "canvasRef (stopCamera s) = canvasRef s"
  "streamRef (stopCamera s) = None"
  "countdownTimerRef (stopCamera s) = countdownTimerRef s"
  "flashTimerRef (stopCamera s) = flashTimerRef s"
  "flashTimeoutPending (stopCamera s) = flashTimeoutPending s"
  "now (stopCamera s) = now s"
  "downloads (stopCamera s) = downloads s"
  "app_state.more (stopCamera s) = app_state.more s"
  by (simp_all add: stopCamera_def Let_def split: option.splits)

lemma stopCamera_videoRef [simp]:
  "videoRef (stopCamera s) = map_option (\<lambda>v. v\<lparr>srcObject := None\<rparr>) (videoRef s)"
  by (simp add: stopCamera_def Let_def split: option.splits)

lemma stopCamera_endedTracks:
  "endedTracks (stopCamera s) =
     endedTracks s \<union>
       (case streamRef s of None \<Rightarrow> {} | Some stream \<Rightarrow> trackId ` set (getTracks stream))"
  by (simp add: stopCamera_def Let_def split: option.splits)

lemma stopCamera_debugInfo:
  "debugInfo (stopCamera s) =
     sliceLast 10 (debugInfo s @ (now s, ''Stopping camera...'') #
       (case streamRef s of
          None \<Rightarrow> []
        | Some stream \<Rightarrow> map (\<lambda>t. (now s, ''Stopped track: '' @ kind t)) (getTracks stream)))"
proof (cases "streamRef s")
  case None
  then show ?thesis
    by (simp add: stopCamera_def Let_def addDebugInfo_debugInfo split: option.splits)
next
  case (Some stream)
  then show ?thesis
    by (simp add: stopCamera_def Let_def stopTracks_debugInfo split: option.splits)
qed

lemma stopCamera_again:
  "stopCamera (stopCamera s) = addDebugInfo ''Stopping camera...'' (stopCamera s)"
proof (rule app_state.equality)
  show "debugInfo (stopCamera (stopCamera s)) =
        debugInfo (addDebugInfo ''Stopping camera...'' (stopCamera s))"
    by (simp add: stopCamera_debugInfo [of "stopCamera s"] addDebugInfo_debugInfo)
  show "videoRef (stopCamera (stopCamera s)) =
        videoRef (addDebugInfo ''Stopping camera...'' (stopCamera s))"
    by (cases "videoRef s") simp_all
  show "endedTracks (stopCamera (stopCamera s)) =
        endedTracks (addDebugInfo ''Stopping camera...'' (stopCamera s))"
    by (simp add: stopCamera_endedTracks [of "stopCamera s"])
qed simp_all

lemma stopCamera_no_stream:
  assumes "streamRef s = None"
  shows "stopCamera s =
           (addDebugInfo ''Stopping camera...'' s)
             \<lparr>videoRef := map_option (\<lambda>v. v\<lparr>srcObject := None\<rparr>) (videoRef s),
              isStreaming := False, error := []\<rparr>"
proof (rule app_state.equality)
  show "debugInfo (stopCamera s) =
        debugInfo ((addDebugInfo ''Stopping camera...'' s)
             \<lparr>videoRef := map_option (\<lambda>v. v\<lparr>srcObject := None\<rparr>) (videoRef s),
              isStreaming := False, error := []\<rparr>)"
    using assms by (simp add: stopCamera_debugInfo addDebugInfo_debugInfo)
  show "endedTracks (stopCamera s) =
        endedTracks ((addDebugInfo ''Stopping camera...'' s)
             \<lparr>videoRef := map_option (\<lambda>v. v\<lparr>srcObject := None\<rparr>) (videoRef s),
              isStreaming := False, error := []\<rparr>)"
    using assms by (simp add: stopCamera_endedTracks)
qed (use assms in simp_all)

subsection \<open>resetSession, field by field\<close>

lemma resetSession_fields [simp]:
  "isStreaming (resetSession s) = False"
  "photos (resetSession s) = []"
  "maxPhotos (resetSession s) = maxPhotos s"
  "countdown (resetSession s) = 0"
  "isCapturing (resetSession s) = False"
  "showSettings (resetSession s) = False"
  "currentFilter (resetSession s) = currentFilter s"
  "isSessionActive (resetSession s) = False"
  "flashEffect (resetSession s) = flashEffect s"
  "isLoading (resetSession s) = isLoading s"
  "error (resetSession s) = []"
  "canvasRef (resetSession s) = canvasRef s"
  "streamRef (resetSession s) = None"
  "countdownTimerRef (resetSession s) = None"
  "flashTimerRef (resetSession s) = False"
  "now (resetSession s) = now s"
  "downloads (resetSession s) = downloads s"
  by (simp_all add: resetSession_def Let_def)

lemma resetSession_videoRef [simp]:
  "videoRef (resetSession s) = map_option (\<lambda>v. v\<lparr>srcObject := None\<rparr>) (videoRef s)"
  by (simp add: resetSession_def Let_def)

lemma resetSession_endedTracks:
  "endedTracks (resetSession s) =
     endedTracks s \<union>
       (case streamRef s of None \<Rightarrow> {} | Some stream \<Rightarrow> trackId ` set (getTracks stream))"
  by (simp add: resetSession_def Let_def stopCamera_endedTracks)

lemma resetSession_debugInfo:
  "debugInfo (resetSession s) =
     sliceLast 10 (debugInfo s @
       (now s, ''Resetting session...'') # (now s, ''Stopping camera...'') #
       (case streamRef s of
          None \<Rightarrow> []
        | Some stream \<Rightarrow> map (\<lambda>t. (now s, ''Stopped track: '' @ kind t)) (getTracks stream)))"
proof -
  define stopped where
    "stopped = (case streamRef s of
          None \<Rightarrow> []
        | Some stream \<Rightarrow> map (\<lambda>t. (now s, ''Stopped track: '' @ kind t)) (getTracks stream))"
  have "debugInfo (resetSession s) =
        sliceLast 10 (sliceLast 10 (debugInfo s @ [(now s, ''Resetting session...'')])
          @ (now s, ''Stopping camera...'') # stopped)"
    unfolding stopped_def
    by (cases "streamRef s")
       (simp_all add: resetSession_def Let_def stopCamera_debugInfo addDebugInfo_debugInfo)
  also have "\<dots> = sliceLast 10 ((debugInfo s @ [(now s, ''Resetting session...'')])
          @ (now s, ''Stopping camera...'') # stopped)"
    by (rule sliceLast_append)
  finally show ?thesis by (simp add: stopped_def)
qed

subsection \<open>Releasing the camera\<close>

text \<open>
  C9, as the code has it. A second \<open>stopCamera\<close> raises nothing and stops no track, and
  leaves the state as the first release left it except for the debug log, which gets
  one more "Stopping camera..." entry. After a release the handle is gone. With no
  handle (never acquired, or released) the call stops no track, and what it changes is
  the debug log, the source of the video element, the streaming flag and the error
  slot.
\<close>

theorem stopCamera_second_release_only_logs:
  "stopCamera (stopCamera s) = addDebugInfo ''Stopping camera...'' (stopCamera s)
   \<and> streamRef (stopCamera s) = None
   \<and> endedTracks (stopCamera (stopCamera s)) = endedTracks (stopCamera s)
   \<and> (streamRef s = None \<longrightarrow>
         endedTracks (stopCamera s) = endedTracks s \<and>
         stopCamera s =
           (addDebugInfo ''Stopping camera...'' s)
             \<lparr>videoRef := map_option (\<lambda>v. v\<lparr>srcObject := None\<rparr>) (videoRef s),
              isStreaming := False, error := []\<rparr>)"
proof (intro conjI impI)
  show "stopCamera (stopCamera s) = addDebugInfo ''Stopping camera...'' (stopCamera s)"
    by (rule stopCamera_again)
  show "streamRef (stopCamera s) = None"
    by simp
  show "endedTracks (stopCamera (stopCamera s)) = endedTracks (stopCamera s)"
    by (simp add: stopCamera_endedTracks [of "stopCamera s"])
next
  assume "streamRef s = None"
  then show "endedTracks (stopCamera s) = endedTracks s"
    by (simp add: stopCamera_endedTracks)
next
  assume "streamRef s = None"
  then show "stopCamera s =
           (addDebugInfo ''Stopping camera...'' s)
             \<lparr>videoRef := map_option (\<lambda>v. v\<lparr>srcObject := None\<rparr>) (videoRef s),
              isStreaming := False, error := []\<rparr>"
    by (rule stopCamera_no_stream)
qed

theorem stopCamera_second_release_only_logs_witness:
  "streamRef (initialState 0) = None
   \<and> endedTracks (stopCamera (initialState 0)) = {}
   \<and> debugInfo (stopCamera (initialState 0)) = [(0, ''Stopping camera...'')]
   \<and> debugInfo (stopCamera (stopCamera (initialState 0))) =
        [(0, ''Stopping camera...''), (0, ''Stopping camera...'')]"
proof -
  have none: "streamRef (initialState 0) = None"
    by (simp add: initialState_def)
  note twice_facts = stopCamera_second_release_only_logs [of "initialState 0"]
  from twice_facts none have once: "stopCamera (initialState 0) =
           (addDebugInfo ''Stopping camera...'' (initialState 0))
             \<lparr>videoRef := map_option (\<lambda>v. v\<lparr>srcObject := None\<rparr>) (videoRef (initialState 0)),
              isStreaming := False, error := []\<rparr>"
    by blast
  from twice_facts none have ended: "endedTracks (stopCamera (initialState 0)) = endedTracks (initialState 0)"
    by blast
  from twice_facts have twice: "stopCamera (stopCamera (initialState 0)) =
      addDebugInfo ''Stopping camera...'' (stopCamera (initialState 0))"
    by blast
  have log1: "debugInfo (stopCamera (initialState 0)) = [(0, ''Stopping camera...'')]"
    by (subst once) (simp add: addDebugInfo_def sliceLast_def)
  have log2: "debugInfo (stopCamera (stopCamera (initialState 0))) =
        [(0, ''Stopping camera...''), (0, ''Stopping camera...'')]"
    by (subst twice) (simp add: addDebugInfo_def log1 sliceLast_def)
  have "endedTracks (initialState 0) = {}"
    by (simp add: initialState_def)
  with none ended log1 log2 show ?thesis by simp
qed

lemma evaluate_failedStart:
  "streamRef failedStart = None \<and> isSessionActive failedStart
   \<and> error failedStart =
       ''Camera permission denied. Please allow camera access and try again.''"
  by (simp add: failedStart_def deniedCamera_def goodCamera_def
    startSession_def startCamera_def startCameraTry_def commit_def checkDevices_def
    requestCameraAccess_def Let_def initialState_def addDebugInfo_def classifyError_def
    startsWith_def)

text \<open>
  C9 as stated fails. On the state of the first render, releasing twice does not leave
  the state a single release leaves: the debug log has two entries, not one. And
  with no handle the call is not without effect. In a session whose camera start was
  refused, no stream is held and the error slot tells the user so; a release empties
  the slot.
\<close>

theorem stopCamera_not_idempotent_counterexample:
  "stopCamera (stopCamera (initialState 0)) \<noteq> stopCamera (initialState 0)
   \<and> streamRef failedStart = None
   \<and> error failedStart =
       ''Camera permission denied. Please allow camera access and try again.''
   \<and> error (stopCamera failedStart) = []
   \<and> stopCamera failedStart \<noteq> failedStart"
proof -
  have twice: "stopCamera (stopCamera (initialState 0)) \<noteq> stopCamera (initialState 0)"
  proof
    assume eq: "stopCamera (stopCamera (initialState 0)) = stopCamera (initialState 0)"
    have log1: "debugInfo (stopCamera (initialState 0)) = [(0, ''Stopping camera...'')]"
      by (simp add: stopCamera_debugInfo sliceLast_def)
    have "debugInfo (stopCamera (stopCamera (initialState 0))) =
          [(0, ''Stopping camera...''), (0, ''Stopping camera...'')]"
      by (simp add: stopCamera_debugInfo [of "stopCamera (initialState 0)"] log1 sliceLast_def)
    with eq log1 show False by simp
  qed
  note failed = evaluate_failedStart
  have cleared: "error (stopCamera failedStart) = []"
    by simp
  have "stopCamera failedStart \<noteq> failedStart"
  proof
    assume "stopCamera failedStart = failedStart"
    then have "error (stopCamera failedStart) = error failedStart"
      by simp
    with failed cleared show False by simp
  qed
  with twice failed cleared show ?thesis by simp
qed

subsection \<open>Resetting the session\<close>

text \<open>
  C3, as the code has it. From every state \<open>resetSession\<close> leaves the session inactive
  with no photos, the countdown at 0 and its timer cleared, the capturing flag off,
  the handle released (every track of the stream it held is stopped, the video element
  has no source), and the error slot and the settings panel cleared. With no handle the
  release stops no track and raises nothing. The chosen filter is not reset: it stays
  what it was.
\<close>

theorem resetSession_returns_to_idle:
  "\<not> isSessionActive (resetSession s)
   \<and> photos (resetSession s) = []
   \<and> countdown (resetSession s) = 0
   \<and> countdownTimerRef (resetSession s) = None
   \<and> \<not> isCapturing (resetSession s)
   \<and> streamRef (resetSession s) = None
   \<and> \<not> isStreaming (resetSession s)
   \<and> (\<forall>stream. streamRef s = Some stream \<longrightarrow>
         trackId ` set (getTracks stream) \<subseteq> endedTracks (resetSession s))
   \<and> (\<forall>v. videoRef (resetSession s) = Some v \<longrightarrow> srcObject v = None)
   \<and> videoRef (commit (resetSession s)) = None
   \<and> (streamRef s = None \<longrightarrow> endedTracks (resetSession s) = endedTracks s)
   \<and> error (resetSession s) = []
   \<and> \<not> showSettings (resetSession s)
   \<and> currentFilter (resetSession s) = currentFilter s"
proof (intro conjI allI impI)
  fix stream
  assume "streamRef s = Some stream"
  then show "trackId ` set (getTracks stream) \<subseteq> endedTracks (resetSession s)"
    by (simp add: resetSession_endedTracks)
next
  fix v
  assume "videoRef (resetSession s) = Some v"
  then obtain v0 where "v = v0\<lparr>srcObject := None\<rparr>"
    by (cases "videoRef s") auto
  then show "srcObject v = None"
    by simp
next
  show "videoRef (commit (resetSession s)) = None"
    by (simp add: commit_def)
next
  assume "streamRef s = None"
  then show "endedTracks (resetSession s) = endedTracks s"
    by (simp add: resetSession_endedTracks)
qed simp_all

theorem resetSession_returns_to_idle_witness:
  "streamRef liveSession = Some exampleStream
   \<and> photos liveSession \<noteq> [] \<and> countdown liveSession = 2 \<and> isCapturing liveSession
   \<and> photos (resetSession liveSession) = []
   \<and> countdown (resetSession liveSession) = 0
   \<and> streamRef (resetSession liveSession) = None
   \<and> 7 \<in> endedTracks (resetSession liveSession)
   \<and> videoRef (resetSession liveSession) = Some \<lparr>srcObject = None\<rparr>
   \<and> currentFilter (resetSession liveSession) = ''sepia''
   \<and> streamRef (initialState 0) = None
   \<and> endedTracks (resetSession (initialState 0)) = {}"
proof -
  have live: "streamRef liveSession = Some exampleStream"
    by (simp add: liveSession_def)
  have before: "photos liveSession \<noteq> [] \<and> countdown liveSession = 2 \<and> isCapturing liveSession
      \<and> currentFilter liveSession = ''sepia''
      \<and> videoRef liveSession = Some \<lparr>srcObject = Some exampleStream\<rparr>"
    by (simp add: liveSession_def)
  note at_live = resetSession_returns_to_idle [of liveSession]
  from at_live live have "trackId ` set (getTracks exampleStream) \<subseteq> endedTracks (resetSession liveSession)"
    by blast
  then have seven: "7 \<in> endedTracks (resetSession liveSession)"
    by (simp add: exampleStream_def)
  from at_live have fields: "photos (resetSession liveSession) = []
      \<and> countdown (resetSession liveSession) = 0
      \<and> streamRef (resetSession liveSession) = None
      \<and> currentFilter (resetSession liveSession) = currentFilter liveSession"
    by blast
  have video: "videoRef (resetSession liveSession) = Some \<lparr>srcObject = None\<rparr>"
    using before by simp
  have none: "streamRef (initialState 0) = None"
    by (simp add: initialState_def)
  note at_init = resetSession_returns_to_idle [of "initialState 0"]
  from at_init none have "endedTracks (resetSession (initialState 0)) = endedTracks (initialState 0)"
    by blast
  then have empty: "endedTracks (resetSession (initialState 0)) = {}"
    by (simp add: initialState_def)
  from live before seven fields video none empty show ?thesis
    by simp
qed

text \<open>
  C3 as stated fails: after the Vintage filter is chosen on the first render's state, a
  reset leaves the filter Vintage, not the default \<open>none\<close>.
\<close>

theorem resetSession_keeps_filter_counterexample:
  "currentFilter (resetSession (handle (SetCurrentFilter ''sepia'') (initialState 0))) \<noteq> ''none''"
  by simp

text \<open>
  C10, as the code has it. \<open>resetSession\<close> leaves \<open>maxPhotos\<close> as it was, while it clears
  the photos, the countdown, the capturing flag, the settings panel and the error
  slot. The debug log is not cleared: it becomes the last ten of the entries it had followed by the entries
  of the reset ("Resetting session...", "Stopping camera...", and one "Stopped track"
  entry per track of the stream), so every earlier entry stays when there is room for
  all, and the oldest are dropped when there is not.
\<close>

theorem resetSession_keeps_maxPhotos_and_rolls_log:
  "maxPhotos (resetSession s) = maxPhotos s
   \<and> photos (resetSession s) = [] \<and> countdown (resetSession s) = 0
   \<and> \<not> isCapturing (resetSession s) \<and> \<not> showSettings (resetSession s)
   \<and> error (resetSession s) = []
   \<and> debugInfo (resetSession s) =
       sliceLast 10 (debugInfo s @
         (now s, ''Resetting session...'') # (now s, ''Stopping camera...'') #
         (case streamRef s of
            None \<Rightarrow> []
          | Some stream \<Rightarrow>
              map (\<lambda>t. (now s, ''Stopped track: '' @ kind t)) (getTracks stream)))
   \<and> (streamRef s = None \<and> length (debugInfo s) \<le> 8 \<longrightarrow>
        debugInfo (resetSession s) =
          debugInfo s @ [(now s, ''Resetting session...''), (now s, ''Stopping camera...'')])"
proof (intro conjI impI)
  show "maxPhotos (resetSession s) = maxPhotos s"
    by simp
  show "debugInfo (resetSession s) =
       sliceLast 10 (debugInfo s @
         (now s, ''Resetting session...'') # (now s, ''Stopping camera...'') #
         (case streamRef s of
            None \<Rightarrow> []
          | Some stream \<Rightarrow>
              map (\<lambda>t. (now s, ''Stopped track: '' @ kind t)) (getTracks stream)))"
    by (rule resetSession_debugInfo)
next
  assume "streamRef s = None \<and> length (debugInfo s) \<le> 8"
  then show "debugInfo (resetSession s) =
          debugInfo s @ [(now s, ''Resetting session...''), (now s, ''Stopping camera...'')]"
    by (simp add: resetSession_debugInfo sliceLast_short)
qed simp_all

theorem resetSession_keeps_maxPhotos_and_rolls_log_witness:
  "streamRef (initialState 0) = None \<and> length (debugInfo (initialState 0)) \<le> 8
   \<and> maxPhotos (resetSession (handleMaxPhotosChange 7 (initialState 0))) = 7
   \<and> debugInfo (resetSession (initialState 0)) =
        [(0, ''Resetting session...''), (0, ''Stopping camera...'')]"
proof -
  have pre: "streamRef (initialState 0) = None \<and> length (debugInfo (initialState 0)) \<le> 8"
    by (simp add: initialState_def)
  with resetSession_keeps_maxPhotos_and_rolls_log [of "initialState 0"]
  have "debugInfo (resetSession (initialState 0)) =
          debugInfo (initialState 0) @
            [(now (initialState 0), ''Resetting session...''),
             (now (initialState 0), ''Stopping camera...'')]"
    by blast
  then have log: "debugInfo (resetSession (initialState 0)) =
        [(0, ''Resetting session...''), (0, ''Stopping camera...'')]"
    by (simp add: initialState_def)
  from resetSession_keeps_maxPhotos_and_rolls_log [of "handleMaxPhotosChange 7 (initialState 0)"]
  have "maxPhotos (resetSession (handleMaxPhotosChange 7 (initialState 0))) =
        maxPhotos (handleMaxPhotosChange 7 (initialState 0))"
    by blast
  then have "maxPhotos (resetSession (handleMaxPhotosChange 7 (initialState 0))) = 7"
    by (simp add: handleMaxPhotosChange_def)
  with pre log show ?thesis by simp
qed

text \<open>
  C10 as stated fails: with a full log, the reset's own entries push the oldest ones
  out. The first entry of the log is gone after the reset.
\<close>

theorem resetSession_drops_old_entries_counterexample:
  "(1, ''PhotoBooth initialized'') \<in> set (debugInfo fullLogState)
   \<and> (1, ''PhotoBooth initialized'') \<notin> set (debugInfo (resetSession fullLogState))"
  by (simp add: resetSession_debugInfo fullLogState_def initialState_def sliceLast_def)

subsection \<open>capturePhoto and the countdown, field by field\<close>

lemma capturePhoto_fields [simp]:
  "maxPhotos (capturePhoto cl env s) = maxPhotos s"
  "countdown (capturePhoto cl env s) = countdown s"
  "isCapturing (capturePhoto cl env s) = isCapturing s"
  "currentFilter (capturePhoto cl env s) = currentFilter s"
  "isSessionActive (capturePhoto cl env s) = isSessionActive s"
  "isStreaming (capturePhoto cl env s) = isStreaming s"
  "videoRef (capturePhoto cl env s) = videoRef s"
  "streamRef (capturePhoto cl env s) = streamRef s"
  "countdownTimerRef (capturePhoto cl env s) = countdownTimerRef s"
  "now (capturePhoto cl env s) = now s"
  "endedTracks (capturePhoto cl env s) = endedTracks s"
  "downloads (capturePhoto cl env s) = downloads s"
  by (simp_all add: capturePhoto_def Let_def split: sum.splits)

lemma capturePhoto_photos:
  "photos (capturePhoto cl env s) =
     (if videoRef s \<noteq> None \<and> canvasRef s \<noteq> None \<and> c_photosLength cl < c_maxPhotos cl
         \<and> ctxAvailable env
      then (case encoded env of
              Inl captureError \<Rightarrow> photos s
            | Inr url \<Rightarrow>
                photos s @ [\<lparr>pid = toString (now s), dataUrl = url, timestamp = now s\<rparr>])
      else photos s)"
  by (simp add: capturePhoto_def Let_def not_le split: sum.splits)

lemma capturePhoto_at_cap:
  "c_maxPhotos cl \<le> c_photosLength cl \<Longrightarrow> capturePhoto cl env s = s"
  by (simp add: capturePhoto_def)

lemma startCountdown_fields [simp]:
  "photos (startCountdown s) = photos s"
  "maxPhotos (startCountdown s) = maxPhotos s"
  "currentFilter (startCountdown s) = currentFilter s"
  "isSessionActive (startCountdown s) = isSessionActive s"
  "isStreaming (startCountdown s) = isStreaming s"
  "videoRef (startCountdown s) = videoRef s"
  "canvasRef (startCountdown s) = canvasRef s"
  "streamRef (startCountdown s) = streamRef s"
  "now (startCountdown s) = now s"
  by (simp_all add: startCountdown_def)

lemma startCountdown_timer:
  "countdownTimerRef (startCountdown s) =
     (if maxPhotos s \<le> length (photos s) then countdownTimerRef s
      else Some \<lparr>count = 3, captured = currentClosure s\<rparr>)"
  by (simp add: startCountdown_def)

lemma intervalTick_fields [simp]:
  "maxPhotos (intervalTick env s) = maxPhotos s"
  "currentFilter (intervalTick env s) = currentFilter s"
  "isSessionActive (intervalTick env s) = isSessionActive s"
  "isStreaming (intervalTick env s) = isStreaming s"
  "videoRef (intervalTick env s) = videoRef s"
  "streamRef (intervalTick env s) = streamRef s"
  "now (intervalTick env s) = now s"
  by (simp_all add: intervalTick_def Let_def split: option.splits)

lemma intervalTick_timer:
  "countdownTimerRef (intervalTick env s) =
     (case countdownTimerRef s of
        None \<Rightarrow> None
      | Some timer \<Rightarrow>
          if count timer - 1 = 0 then None else Some (timer\<lparr>count := count timer - 1\<rparr>))"
  by (simp add: intervalTick_def Let_def split: option.splits)

lemma intervalTick_photos:
  "photos (intervalTick env s) =
     (case countdownTimerRef s of
        None \<Rightarrow> photos s
      | Some timer \<Rightarrow>
          if count timer - 1 = 0
          then photos (capturePhoto (captured timer) env
                 (s\<lparr>countdown := 0, countdownTimerRef := None\<rparr>))
          else photos s)"
  by (simp add: intervalTick_def Let_def split: option.splits)

lemma flashTimeout_fields [simp]:
  "isCapturing (flashTimeout s) = isCapturing s"
  "photos (flashTimeout s) = photos s"
  "maxPhotos (flashTimeout s) = maxPhotos s"
  "countdownTimerRef (flashTimeout s) = countdownTimerRef s"
  "now (flashTimeout s) = now s"
  by (simp_all add: flashTimeout_def)

lemma clickTakePhoto_cases:
  "clickTakePhoto s = s \<or> clickTakePhoto s = startCountdown s"
  by (simp add: clickTakePhoto_def)

lemma commit_fields [simp]:
  "isCapturing (commit s) = isCapturing s"
  "photos (commit s) = photos s"
  "maxPhotos (commit s) = maxPhotos s"
  "countdownTimerRef (commit s) = countdownTimerRef s"
  "now (commit s) = now s"
  "isSessionActive (commit s) = isSessionActive s"
  "streamRef (commit s) = streamRef s"
  "error (commit s) = error s"
  by (simp_all add: commit_def split: option.splits)

subsection \<open>startCamera leaves the session's photos and countdown alone\<close>

text \<open>The part of the state the capture cap and the identifiers depend on.\<close>

lemma session_part_addDebugInfo [simp]:
  "session_part (addDebugInfo i s) = session_part s"
  by (simp add: session_part_def)

lemma session_part_checkDevices [simp]:
  "session_part (checkDevices env s) = session_part s"
  by (simp add: checkDevices_def Let_def split: sum.splits)

lemma session_part_requestCameraAccess [simp]:
  "session_part (snd (requestCameraAccess env s)) = session_part s"
  by (simp add: requestCameraAccess_def Let_def split: sum.splits)

lemma session_part_waitForVideo [simp]:
  "session_part (snd (waitForVideo env s)) = session_part s"
  by (simp add: waitForVideo_def Let_def session_part_def
      split: option.splits sink_signal.splits)

lemma session_part_startCameraTry [simp]:
  "session_part (snd (startCameraTry env s)) = session_part s"
proof (cases "videoRef s")
  case None
  then show ?thesis by (simp add: startCameraTry_def)
next
  case (Some videoElement)
  show ?thesis
  proof (cases "getUserMediaSupported env")
    case False
    with Some show ?thesis by (simp add: startCameraTry_def)
  next
    case True
    let ?s3 = "checkDevices env (addDebugInfo ''getUserMedia is supported''
                 (addDebugInfo ''Video element found and captured'' s))"
    obtain r s4 where req: "requestCameraAccess env ?s3 = (r, s4)"
      by (cases "requestCameraAccess env ?s3")
    then have s4: "session_part s4 = session_part s"
      using session_part_requestCameraAccess [of env ?s3] by simp
    show ?thesis
    proof (cases r)
      case (Inl e)
      with Some True req s4 show ?thesis
        by (simp add: startCameraTry_def Let_def)
    next
      case (Inr stream)
      let ?s6 = "addDebugInfo ''Stream assigned to video element''
                  (s4\<lparr>videoRef := Some (videoElement\<lparr>srcObject := Some stream\<rparr>),
                      streamRef := Some stream\<rparr>)"
      have s6: "session_part ?s6 = session_part s"
        using s4 by (simp add: session_part_def)
      obtain w s7 where wait: "waitForVideo env ?s6 = (w, s7)"
        by (cases "waitForVideo env ?s6")
      then have "session_part s7 = session_part s"
        using session_part_waitForVideo [of env ?s6] s6 by simp
      with Some True req Inr wait show ?thesis
        by (cases w) (simp_all add: startCameraTry_def Let_def)
    qed
  qed
qed

lemma session_part_stopQuietly [simp]:
  "session_part (fold stopTrackQuietly ts s) = session_part s"
  by (induction ts arbitrary: s) (simp_all add: stopTrackQuietly_def session_part_def)

lemma session_part_startCamera [simp]:
  "session_part (startCamera env s) = session_part s"
proof -
  let ?s1 = "addDebugInfo ''Starting camera...'' (s\<lparr>isLoading := True, error := []\<rparr>)"
  have s1: "session_part ?s1 = session_part s"
    by (simp add: session_part_def)
  obtain r s' where tried: "startCameraTry env ?s1 = (r, s')"
    by (cases "startCameraTry env ?s1")
  then have s': "session_part s' = session_part s"
    using session_part_startCameraTry [of env ?s1] s1 by simp
  show ?thesis
  proof (cases r)
    case (Inr u)
    with tried s' show ?thesis
      by (simp add: startCamera_def Let_def session_part_def)
  next
    case (Inl e)
    let ?s4 = "(addDebugInfo (''Camera error: '' @ message e) s')
                 \<lparr>error := classifyError (message e)\<rparr>"
    have s4: "session_part ?s4 = session_part s"
      using s' by (simp add: session_part_def)
    show ?thesis
    proof (cases "streamRef ?s4")
      case None
      with tried Inl s4 show ?thesis
        by (simp add: startCamera_def Let_def session_part_def)
    next
      case (Some stream)
      have "session_part ((fold stopTrackQuietly (getTracks stream) ?s4)\<lparr>streamRef := None\<rparr>)
            = session_part s"
        using s4 session_part_stopQuietly [of "getTracks stream" ?s4]
        by (simp add: session_part_def)
      with tried Inl Some show ?thesis
        by (simp add: startCamera_def Let_def session_part_def)
    qed
  qed
qed

lemma session_part_startSession [simp]:
  "session_part (startSession env s) = session_part s"
  by (simp add: startSession_def) (simp add: session_part_def)

lemma startCamera_fields [simp]:
  "photos (startCamera env s) = photos s"
  "maxPhotos (startCamera env s) = maxPhotos s"
  "countdownTimerRef (startCamera env s) = countdownTimerRef s"
  "now (startCamera env s) = now s"
  "isCapturing (startCamera env s) = isCapturing s"
  using session_part_startCamera [of env s] by (simp_all add: session_part_def)

lemma startSession_fields [simp]:
  "photos (startSession env s) = photos s"
  "maxPhotos (startSession env s) = maxPhotos s"
  "countdownTimerRef (startSession env s) = countdownTimerRef s"
  "now (startSession env s) = now s"
  "isCapturing (startSession env s) = isCapturing s"
  using session_part_startSession [of env s] by (simp_all add: session_part_def)

subsection \<open>The capture cap\<close>

lemma cap_ok_session_part:
  "session_part s' = session_part s \<Longrightarrow> cap_ok s' = cap_ok s"
  by (auto simp: session_part_def cap_ok_def split: option.splits)

lemma cap_ok_startCountdown: "cap_ok s \<Longrightarrow> cap_ok (startCountdown s)"
  by (simp add: cap_ok_def startCountdown_timer currentClosure_def split: option.splits)

lemma cap_ok_intervalTick:
  assumes "cap_ok s"
  shows "cap_ok (intervalTick env s)"
proof (cases "countdownTimerRef s")
  case None
  with assms show ?thesis by (simp add: intervalTick_def)
next
  case (Some timer)
  with assms have closed: "c_photosLength (captured timer) = length (photos s)"
      "c_maxPhotos (captured timer) = maxPhotos s" and le: "length (photos s) \<le> maxPhotos s"
    by (simp_all add: cap_ok_def)
  show ?thesis
  proof (cases "count timer - 1 = 0")
    case True
    with Some closed le show ?thesis
      by (simp add: cap_ok_def intervalTick_timer intervalTick_photos capturePhoto_photos
          split: sum.splits)
  next
    case False
    with Some closed le show ?thesis
      by (simp add: cap_ok_def intervalTick_timer intervalTick_photos split: option.splits)
  qed
qed

lemma cap_ok_handle: "cap_ok s \<Longrightarrow> cap_ok (handle e s)"
proof (cases e)
  case (StartSession env)
  assume "cap_ok s"
  with StartSession show ?thesis
    using cap_ok_session_part [OF session_part_startSession [of env s]] by simp
next
  case (StartCamera env)
  assume "cap_ok s"
  then have "cap_ok (s\<lparr>error := []\<rparr>)"
    by (simp add: cap_ok_def split: option.splits)
  with StartCamera show ?thesis
    using cap_ok_session_part [OF session_part_startCamera [of env "s\<lparr>error := []\<rparr>"]] by simp
next
  case StartCountdown
  assume "cap_ok s"
  with StartCountdown show ?thesis by (simp add: cap_ok_startCountdown)
next
  case ClickTakePhoto
  assume "cap_ok s"
  with ClickTakePhoto show ?thesis
    using clickTakePhoto_cases [of s] by (auto simp: cap_ok_startCountdown)
next
  case (IntervalTick env)
  assume "cap_ok s"
  with IntervalTick show ?thesis by (simp add: cap_ok_intervalTick)
next
  case FlashTimeout
  assume "cap_ok s"
  with FlashTimeout show ?thesis by (simp add: cap_ok_def split: option.splits)
next
  case (SetCurrentFilter f)
  assume "cap_ok s"
  with SetCurrentFilter show ?thesis by (simp add: cap_ok_def split: option.splits)
next
  case ToggleSettings
  assume "cap_ok s"
  with ToggleSettings show ?thesis by (simp add: cap_ok_def split: option.splits)
next
  case StopCamera
  assume "cap_ok s"
  with StopCamera show ?thesis by (simp add: cap_ok_def split: option.splits)
next
  case ResetSession
  then show ?thesis by (simp add: cap_ok_def)
qed

lemma maxPhotos_handle: "maxPhotos (handle e s) = maxPhotos s"
  by (cases e) (simp_all add: clickTakePhoto_def)

lemma cap_ok_dispatch: "cap_ok s \<Longrightarrow> cap_ok (dispatch te s)"
proof -
  assume "cap_ok s"
  then have "cap_ok (s\<lparr>now := fst te\<rparr>)"
    by (simp add: cap_ok_def split: option.splits)
  then have "cap_ok (handle (snd te) (s\<lparr>now := fst te\<rparr>))"
    by (rule cap_ok_handle)
  then show ?thesis
    by (simp add: dispatch_def cap_ok_def split: option.splits)
qed

lemma maxPhotos_dispatch: "maxPhotos (dispatch te s) = maxPhotos s"
  by (simp add: dispatch_def maxPhotos_handle)

lemma cap_ok_run: "cap_ok s \<Longrightarrow> cap_ok (run trace s)"
  unfolding run_def by (induction trace arbitrary: s) (simp_all add: cap_ok_dispatch)

lemma maxPhotos_run: "maxPhotos (run trace s) = maxPhotos s"
  unfolding run_def by (induction trace arbitrary: s) (simp_all add: maxPhotos_dispatch)

lemma evaluate_twoCountdowns_target_one:
  "length (photos (run twoCountdowns (handleMaxPhotosChange 1 (initialState 0)))) = 1"
  by (simp add: twoCountdowns_def run_def dispatch_def handleMaxPhotosChange_def
    startSession_def startCamera_def startCameraTry_def commit_def checkDevices_def
    requestCameraAccess_def waitForVideo_def goodCamera_def goodFrame_def
    startCountdown_def intervalTick_def capturePhoto_def currentClosure_def Let_def
    initialState_def addDebugInfo_def orElse_def)

text \<open>
  C1. Whatever the target count \<open>N\<close> set on the welcome screen, and whatever happens
  afterwards (capture requests, firings of the interval with any outcome of the
  capture, a new camera start, stop, reset, a change of filter), the photos never
  exceed \<open>N\<close>, and \<open>N\<close> stays the target count. In a state that has reached its target
  count, a capture request changes nothing: neither the handler \<open>startCountdown\<close>,
  nor a click on the button, nor \<open>capturePhoto\<close> itself.
\<close>

theorem photos_never_exceed_target:
  "length (photos (run trace (handleMaxPhotosChange N (initialState t0)))) \<le> N
   \<and> maxPhotos (run trace (handleMaxPhotosChange N (initialState t0))) = N
   \<and> (maxPhotos s \<le> length (photos s) \<longrightarrow>
         startCountdown s = s \<and> clickTakePhoto s = s
         \<and> capturePhoto (currentClosure s) env s = s)"
proof (intro conjI impI)
  let ?s0 = "handleMaxPhotosChange N (initialState t0)"
  have "cap_ok ?s0"
    by (simp add: cap_ok_def handleMaxPhotosChange_def)
  then have "cap_ok (run trace ?s0)"
    by (rule cap_ok_run)
  then have "length (photos (run trace ?s0)) \<le> maxPhotos (run trace ?s0)"
    by (simp add: cap_ok_def)
  moreover show target: "maxPhotos (run trace ?s0) = N"
    by (simp add: maxPhotos_run handleMaxPhotosChange_def)
  ultimately show "length (photos (run trace ?s0)) \<le> N"
    by simp
next
  assume full: "maxPhotos s \<le> length (photos s)"
  then show "startCountdown s = s"
    by (simp add: startCountdown_def)
  from full show "clickTakePhoto s = s"
    by (simp add: clickTakePhoto_def takePhotoDisabled_def)
  from full show "capturePhoto (currentClosure s) env s = s"
    by (simp add: capturePhoto_at_cap currentClosure_def)
qed

theorem photos_never_exceed_target_witness:
  "length (photos (run twoCountdowns (handleMaxPhotosChange 1 (initialState 0)))) = 1
   \<and> maxPhotos (run twoCountdowns (handleMaxPhotosChange 1 (initialState 0))) = 1
   \<and> maxPhotos liveSession = 4 \<and> length (photos liveSession) = 1
   \<and> maxPhotos (handleMaxPhotosChange 1 liveSession)
        \<le> length (photos (handleMaxPhotosChange 1 liveSession))
   \<and> startCountdown (handleMaxPhotosChange 1 liveSession) = handleMaxPhotosChange 1 liveSession"
proof -
  note inst = photos_never_exceed_target
    [of twoCountdowns 1 0 "handleMaxPhotosChange 1 liveSession" goodFrame]
  have full: "maxPhotos (handleMaxPhotosChange 1 liveSession)
        \<le> length (photos (handleMaxPhotosChange 1 liveSession))"
    by (simp add: handleMaxPhotosChange_def liveSession_def)
  with inst have noop:
    "startCountdown (handleMaxPhotosChange 1 liveSession) = handleMaxPhotosChange 1 liveSession"
    by blast
  from inst have target:
    "maxPhotos (run twoCountdowns (handleMaxPhotosChange 1 (initialState 0))) = 1"
    by blast
  have live: "maxPhotos liveSession = 4 \<and> length (photos liveSession) = 1"
    by (simp add: liveSession_def)
  from evaluate_twoCountdowns_target_one target live full noop show ?thesis
    by blast
qed

subsection \<open>A capture request during a countdown\<close>

lemma tick_not_last:
  assumes "countdownTimerRef s = Some timer" and "count timer - 1 \<noteq> 0"
  shows "photos (intervalTick env s) = photos s"
    and "countdownTimerRef (intervalTick env s) = Some (timer\<lparr>count := count timer - 1\<rparr>)"
    and "countdown (intervalTick env s) = count timer - 1"
    and "videoRef (intervalTick env s) = videoRef s"
    and "canvasRef (intervalTick env s) = canvasRef s"
    and "now (intervalTick env s) = now s"
  using assms by (simp_all add: intervalTick_def Let_def)

lemma tick_last:
  assumes "countdownTimerRef s = Some timer" and "count timer - 1 = 0"
  shows "photos (intervalTick env s) =
           photos (capturePhoto (captured timer) env
             (s\<lparr>countdown := 0, countdownTimerRef := None\<rparr>))"
    and "countdownTimerRef (intervalTick env s) = None"
    and "countdown (intervalTick env s) = 0"
    and "isCapturing (intervalTick env s) = False"
  using assms by (simp_all add: intervalTick_def Let_def)

lemma countdown_of_three:
  assumes room: "length (photos s) < maxPhotos s"
  shows "photos (intervalTick e2 (intervalTick e1 (startCountdown s))) = photos s"
    and "countdownTimerRef (intervalTick e3 (intervalTick e2 (intervalTick e1 (startCountdown s))))
           = None"
    and "photos (intervalTick e3 (intervalTick e2 (intervalTick e1 (startCountdown s)))) =
           (if videoRef s \<noteq> None \<and> canvasRef s \<noteq> None \<and> ctxAvailable e3
            then (case encoded e3 of
                    Inl captureError \<Rightarrow> photos s
                  | Inr url \<Rightarrow>
                      photos s @ [\<lparr>pid = toString (now s), dataUrl = url, timestamp = now s\<rparr>])
            else photos s)"
    and "isCapturing (intervalTick e3 (intervalTick e2 (intervalTick e1 (startCountdown s))))
           = False"
    and "countdown (intervalTick e3 (intervalTick e2 (intervalTick e1 (startCountdown s)))) = 0"
proof -
  let ?t3 = "\<lparr>count = 3, captured = currentClosure s\<rparr>"
  let ?s0 = "startCountdown s"
  let ?s1 = "intervalTick e1 ?s0"
  let ?s2 = "intervalTick e2 ?s1"
  let ?s3 = "intervalTick e3 ?s2"
  have t0: "countdownTimerRef ?s0 = Some ?t3"
    using room by (simp add: startCountdown_timer)
  have t1: "countdownTimerRef ?s1 = Some (?t3\<lparr>count := 2\<rparr>)"
    using tick_not_last(2) [OF t0, of e1] by simp
  have t2: "countdownTimerRef ?s2 = Some (?t3\<lparr>count := 1\<rparr>)"
    using tick_not_last(2) [OF t1, of e2] by simp
  have p1: "photos ?s1 = photos s"
    using tick_not_last(1) [OF t0, of e1] by simp
  show p2: "photos ?s2 = photos s"
    using tick_not_last(1) [OF t1, of e2] p1 by simp
  have v2: "videoRef ?s2 = videoRef s"
    by simp
  have c2: "canvasRef ?s2 = canvasRef s"
    using tick_not_last(5) [OF t1, of e2] tick_not_last(5) [OF t0, of e1] by simp
  have n2: "now ?s2 = now s"
    by simp
  show "countdownTimerRef ?s3 = None"
    using tick_last(2) [OF t2, of e3] by simp
  show "isCapturing ?s3 = False"
    using tick_last(4) [OF t2, of e3] by simp
  show "countdown ?s3 = 0"
    using tick_last(3) [OF t2, of e3] by simp
  have "photos ?s3 =
          photos (capturePhoto (currentClosure s) e3
            (?s2\<lparr>countdown := 0, countdownTimerRef := None\<rparr>))"
    using tick_last(1) [OF t2, of e3] by simp
  then show "photos ?s3 =
           (if videoRef s \<noteq> None \<and> canvasRef s \<noteq> None \<and> ctxAvailable e3
            then (case encoded e3 of
                    Inl captureError \<Rightarrow> photos s
                  | Inr url \<Rightarrow>
                      photos s @ [\<lparr>pid = toString (now s), dataUrl = url, timestamp = now s\<rparr>])
            else photos s)"
    using room p2 v2 c2 n2
    by (simp add: capturePhoto_photos currentClosure_def split: sum.splits)
qed

lemma countdown_shown_intervalTick:
  "countdown_shown s \<Longrightarrow> countdown_shown (intervalTick env s)"
  by (cases "countdownTimerRef s")
     (auto simp: countdown_shown_def intervalTick_def Let_def)

lemma countdown_shown_startCountdown:
  "countdown_shown s \<Longrightarrow> countdown_shown (startCountdown s)"
  by (simp add: countdown_shown_def startCountdown_def)

lemma countdown_shown_handle: "countdown_shown s \<Longrightarrow> countdown_shown (handle e s)"
proof (cases e)
  case ClickTakePhoto
  assume "countdown_shown s"
  with ClickTakePhoto show ?thesis
    using clickTakePhoto_cases [of s]
    by (auto simp: countdown_shown_startCountdown)
next
  case (IntervalTick env)
  assume "countdown_shown s"
  with IntervalTick show ?thesis
    by (simp add: countdown_shown_intervalTick)
next
  case StartCountdown
  assume "countdown_shown s"
  with StartCountdown show ?thesis
    by (simp add: countdown_shown_startCountdown)
qed (simp_all add: countdown_shown_def)

lemma countdown_shown_run:
  "countdown_shown s \<Longrightarrow> countdown_shown (run trace s)"
  unfolding run_def
proof (induction trace arbitrary: s)
  case Nil
  then show ?case by simp
next
  case (Cons te trace)
  from Cons.prems have "countdown_shown (s\<lparr>now := fst te\<rparr>)"
    by (simp add: countdown_shown_def)
  then have "countdown_shown (handle (snd te) (s\<lparr>now := fst te\<rparr>))"
    by (rule countdown_shown_handle)
  then have "countdown_shown (dispatch te s)"
    by (simp add: dispatch_def countdown_shown_def)
  then show ?case
    using Cons.IH by simp
qed

lemma countdown_capturing:
  assumes room: "length (photos s) < maxPhotos s"
  shows "isCapturing (startCountdown s)"
    and "isCapturing (intervalTick e1 (startCountdown s))"
    and "isCapturing (intervalTick e2 (intervalTick e1 (startCountdown s)))"
proof -
  let ?t3 = "\<lparr>count = 3, captured = currentClosure s\<rparr>"
  let ?s0 = "startCountdown s"
  let ?s1 = "intervalTick e1 ?s0"
  have t0: "countdownTimerRef ?s0 = Some ?t3"
    using room by (simp add: startCountdown_timer)
  have t1: "countdownTimerRef ?s1 = Some (?t3\<lparr>count := 2\<rparr>)"
    using tick_not_last(2) [OF t0, of e1] by simp
  show c0: "isCapturing ?s0"
    using room by (simp add: startCountdown_def)
  show c1: "isCapturing ?s1"
    using t0 c0 by (simp add: intervalTick_def Let_def)
  show "isCapturing (intervalTick e2 ?s1)"
    using t1 c1 by (simp add: intervalTick_def Let_def)
qed

lemma click_while_capturing: "isCapturing s \<Longrightarrow> clickTakePhoto s = s"
  by (simp add: clickTakePhoto_def takePhotoDisabled_def)

text \<open>
  C2. A capture request is a click on "Take Photo", the one place that calls
  \<open>startCountdown\<close>. The button is disabled while \<open>isCapturing\<close> is set, and in every
  state the page can reach that flag is set while a countdown timer runs. So a capture
  request during a countdown changes nothing: the state, and with it the timer, its
  count and the next firing of the interval, are what they were. No second timer is
  made and no tick is skipped. A countdown with capture requests made after its start
  and after each of its first two ticks runs as it does without them: two firings of
  the interval take no photo, the third clears the timer and calls \<open>capturePhoto\<close> once
  (one photo more when the frame can be drawn and encoded, none otherwise), and there
  is no fourth firing.
\<close>

theorem capture_request_during_countdown_ignored:
  "(isCapturing s \<longrightarrow> clickTakePhoto s = s \<and> handle ClickTakePhoto s = s)
   \<and> (countdownTimerRef (run trace (handleMaxPhotosChange N (initialState t0))) \<noteq> None \<longrightarrow>
        isCapturing (run trace (handleMaxPhotosChange N (initialState t0)))
        \<and> clickTakePhoto (run trace (handleMaxPhotosChange N (initialState t0))) =
            run trace (handleMaxPhotosChange N (initialState t0))
        \<and> handle ClickTakePhoto (run trace (handleMaxPhotosChange N (initialState t0))) =
            run trace (handleMaxPhotosChange N (initialState t0))
        \<and> intervalTick env
              (handle ClickTakePhoto (run trace (handleMaxPhotosChange N (initialState t0)))) =
            intervalTick env (run trace (handleMaxPhotosChange N (initialState t0))))
   \<and> (length (photos s) < maxPhotos s \<longrightarrow>
        countdown (startCountdown s) = 3
        \<and> countdownTimerRef (startCountdown s) = Some \<lparr>count = 3, captured = currentClosure s\<rparr>
        \<and> clickTakePhoto (startCountdown s) = startCountdown s
        \<and> clickTakePhoto (intervalTick e1 (startCountdown s)) =
            intervalTick e1 (startCountdown s)
        \<and> clickTakePhoto (intervalTick e2 (intervalTick e1 (startCountdown s))) =
            intervalTick e2 (intervalTick e1 (startCountdown s))
        \<and> intervalTick e3 (clickTakePhoto (intervalTick e2 (clickTakePhoto
              (intervalTick e1 (clickTakePhoto (startCountdown s)))))) =
            intervalTick e3 (intervalTick e2 (intervalTick e1 (startCountdown s)))
        \<and> photos (intervalTick e2 (intervalTick e1 (startCountdown s))) = photos s
        \<and> photos (intervalTick e3 (intervalTick e2 (intervalTick e1 (startCountdown s)))) =
             (if videoRef s \<noteq> None \<and> canvasRef s \<noteq> None \<and> ctxAvailable e3
              then (case encoded e3 of
                      Inl captureError \<Rightarrow> photos s
                    | Inr url \<Rightarrow>
                        photos s @
                          [\<lparr>pid = toString (now s), dataUrl = url, timestamp = now s\<rparr>])
              else photos s)
        \<and> countdownTimerRef
             (intervalTick e3 (intervalTick e2 (intervalTick e1 (startCountdown s)))) = None
        \<and> intervalTick e4
             (intervalTick e3 (intervalTick e2 (intervalTick e1 (startCountdown s)))) =
             intervalTick e3 (intervalTick e2 (intervalTick e1 (startCountdown s))))"
proof (intro conjI impI)
  assume "isCapturing s"
  then show "clickTakePhoto s = s" and "handle ClickTakePhoto s = s"
    by (simp_all add: click_while_capturing)
next
  let ?s = "run trace (handleMaxPhotosChange N (initialState t0))"
  assume running: "countdownTimerRef ?s \<noteq> None"
  have "countdown_shown (handleMaxPhotosChange N (initialState t0))"
    by (simp add: countdown_shown_def handleMaxPhotosChange_def)
  then have "countdown_shown ?s"
    by (rule countdown_shown_run)
  with running show capturing: "isCapturing ?s"
    by (auto simp: countdown_shown_def)
  then show click: "clickTakePhoto ?s = ?s"
    by (rule click_while_capturing)
  then show "handle ClickTakePhoto ?s = ?s"
    by simp
  from click show "intervalTick env (handle ClickTakePhoto ?s) = intervalTick env ?s"
    by simp
next
  assume room: "length (photos s) < maxPhotos s"
  then show "countdown (startCountdown s) = 3"
    by (simp add: startCountdown_def)
  from room show "countdownTimerRef (startCountdown s) =
      Some \<lparr>count = 3, captured = currentClosure s\<rparr>"
    by (simp add: startCountdown_timer)
  note capturing = countdown_capturing [OF room]
  show c0: "clickTakePhoto (startCountdown s) = startCountdown s"
    using capturing(1) by (rule click_while_capturing)
  show c1: "clickTakePhoto (intervalTick e1 (startCountdown s)) =
            intervalTick e1 (startCountdown s)"
    using capturing(2) by (rule click_while_capturing)
  show c2: "clickTakePhoto (intervalTick e2 (intervalTick e1 (startCountdown s))) =
            intervalTick e2 (intervalTick e1 (startCountdown s))"
    using capturing(3) by (rule click_while_capturing)
  show "intervalTick e3 (clickTakePhoto (intervalTick e2 (clickTakePhoto
              (intervalTick e1 (clickTakePhoto (startCountdown s)))))) =
            intervalTick e3 (intervalTick e2 (intervalTick e1 (startCountdown s)))"
    by (simp only: c0 c1 c2)
  from room show "photos (intervalTick e2 (intervalTick e1 (startCountdown s))) = photos s"
    by (rule countdown_of_three(1))
  from room show "photos (intervalTick e3 (intervalTick e2 (intervalTick e1 (startCountdown s)))) =
             (if videoRef s \<noteq> None \<and> canvasRef s \<noteq> None \<and> ctxAvailable e3
              then (case encoded e3 of
                      Inl captureError \<Rightarrow> photos s
                    | Inr url \<Rightarrow>
                        photos s @
                          [\<lparr>pid = toString (now s), dataUrl = url, timestamp = now s\<rparr>])
              else photos s)"
    by (rule countdown_of_three(3))
  from room show cleared: "countdownTimerRef
      (intervalTick e3 (intervalTick e2 (intervalTick e1 (startCountdown s)))) = None"
    by (rule countdown_of_three(2))
  then show "intervalTick e4
             (intervalTick e3 (intervalTick e2 (intervalTick e1 (startCountdown s)))) =
             intervalTick e3 (intervalTick e2 (intervalTick e1 (startCountdown s)))"
    by (simp add: intervalTick_def)
qed

lemma evaluate_runningCountdown:
  "isCapturing runningCountdown \<and> countdown runningCountdown = 2
   \<and> photos runningCountdown = [] \<and> maxPhotos runningCountdown = 4
   \<and> now runningCountdown = 3000
   \<and> isSessionActive runningCountdown \<and> isStreaming runningCountdown
   \<and> videoRef runningCountdown = Some \<lparr>srcObject = Some exampleStream\<rparr>
   \<and> canvasRef runningCountdown \<noteq> None
   \<and> countdownTimerRef runningCountdown =
       Some \<lparr>count = 2,
             captured = \<lparr>c_photosLength = 0, c_maxPhotos = 4, c_currentFilter = ''none''\<rparr>\<rparr>"
  by (simp add: runningCountdown_def run_def dispatch_def
    startSession_def startCamera_def startCameraTry_def commit_def checkDevices_def
    requestCameraAccess_def waitForVideo_def goodCamera_def
    startCountdown_def intervalTick_def currentClosure_def Let_def
    initialState_def addDebugInfo_def)

lemma evaluate_sessionReady:
  "\<not> isCapturing sessionReady \<and> photos sessionReady = [] \<and> maxPhotos sessionReady = 4
   \<and> now sessionReady = 1000 \<and> isSessionActive sessionReady \<and> isStreaming sessionReady
   \<and> videoRef sessionReady = Some \<lparr>srcObject = Some exampleStream\<rparr>
   \<and> canvasRef sessionReady \<noteq> None \<and> countdownTimerRef sessionReady = None"
  by (simp add: sessionReady_def run_def dispatch_def
    startSession_def startCamera_def startCameraTry_def commit_def checkDevices_def
    requestCameraAccess_def waitForVideo_def goodCamera_def Let_def
    initialState_def addDebugInfo_def)

theorem capture_request_during_countdown_ignored_witness:
  "isCapturing runningCountdown
   \<and> countdownTimerRef runningCountdown \<noteq> None
   \<and> countdown runningCountdown = 2
   \<and> handle ClickTakePhoto runningCountdown = runningCountdown
   \<and> countdown (intervalTick goodFrame (handle ClickTakePhoto runningCountdown)) = 1
   \<and> length (photos sessionReady) < maxPhotos sessionReady
   \<and> photos (intervalTick goodFrame (clickTakePhoto (intervalTick goodFrame (clickTakePhoto
        (intervalTick goodFrame (clickTakePhoto (startCountdown sessionReady))))))) =
        [\<lparr>pid = toString 1000, dataUrl = ''data:image/png;base64,AAAA'', timestamp = 1000\<rparr>]"
proof -
  note facts = evaluate_runningCountdown
  note ready = evaluate_sessionReady
  have same: "handleMaxPhotosChange 4 (initialState 0) = initialState 0"
    by (simp add: handleMaxPhotosChange_def initialState_def)
  have reached: "run [(1000, StartSession goodCamera), (2000, StartCountdown),
      (3000, IntervalTick goodFrame)] (handleMaxPhotosChange 4 (initialState 0))
      = runningCountdown"
    by (simp only: same runningCountdown_def)
  note inst = capture_request_during_countdown_ignored
    [of sessionReady
      "[(1000, StartSession goodCamera), (2000, StartCountdown),
        (3000, IntervalTick goodFrame)]" 4 0 goodFrame goodFrame goodFrame goodFrame
      goodFrame,
     unfolded reached]
  from facts have capturing: "isCapturing runningCountdown"
    by blast
  from facts have running: "countdownTimerRef runningCountdown \<noteq> None"
    by simp
  from facts have two: "countdown runningCountdown = 2"
    by blast
  from inst running have click: "handle ClickTakePhoto runningCountdown = runningCountdown"
    by blast
  from inst running
  have "intervalTick goodFrame (handle ClickTakePhoto runningCountdown) =
        intervalTick goodFrame runningCountdown"
    by blast
  moreover have "countdown (intervalTick goodFrame runningCountdown) = 1"
    using facts by (simp add: intervalTick_def Let_def)
  ultimately have next_tick:
    "countdown (intervalTick goodFrame (handle ClickTakePhoto runningCountdown)) = 1"
    by simp
  from ready have room: "length (photos sessionReady) < maxPhotos sessionReady"
    by simp
  from inst room
  have clicks: "intervalTick goodFrame (clickTakePhoto (intervalTick goodFrame (clickTakePhoto
              (intervalTick goodFrame (clickTakePhoto (startCountdown sessionReady)))))) =
            intervalTick goodFrame (intervalTick goodFrame (intervalTick goodFrame
              (startCountdown sessionReady)))"
    by blast
  from inst room have "photos (intervalTick goodFrame (intervalTick goodFrame
      (intervalTick goodFrame (startCountdown sessionReady)))) =
        (if videoRef sessionReady \<noteq> None \<and> canvasRef sessionReady \<noteq> None
            \<and> ctxAvailable goodFrame
         then (case encoded goodFrame of
                 Inl captureError \<Rightarrow> photos sessionReady
               | Inr url \<Rightarrow>
                   photos sessionReady @
                     [\<lparr>pid = toString (now sessionReady), dataUrl = url,
                       timestamp = now sessionReady\<rparr>])
         else photos sessionReady)"
    by blast
  with ready have "photos (intervalTick goodFrame (intervalTick goodFrame
      (intervalTick goodFrame (startCountdown sessionReady)))) =
        [\<lparr>pid = toString 1000, dataUrl = ''data:image/png;base64,AAAA'', timestamp = 1000\<rparr>]"
    by (simp add: goodFrame_def)
  with clicks have one: "photos (intervalTick goodFrame (clickTakePhoto
      (intervalTick goodFrame (clickTakePhoto
        (intervalTick goodFrame (clickTakePhoto (startCountdown sessionReady))))))) =
        [\<lparr>pid = toString 1000, dataUrl = ''data:image/png;base64,AAAA'', timestamp = 1000\<rparr>]"
    by simp
  from capturing running two click next_tick room one show ?thesis
    by blast
qed

subsection \<open>Photo identifiers\<close>

lemma digitValue_digit: "d < 10 \<Longrightarrow> digitValue (digit d) = d"
proof -
  assume "d < 10"
  then have "d = 0 \<or> d = 1 \<or> d = 2 \<or> d = 3 \<or> d = 4
      \<or> d = 5 \<or> d = 6 \<or> d = 7 \<or> d = 8 \<or> d = 9"
    by arith
  then show ?thesis
    by (elim disjE) (simp_all add: digit_def digitValue_def)
qed

lemma parseNat_snoc: "parseNat (str @ [c]) = 10 * parseNat str + digitValue c"
  by (simp add: parseNat_def)

lemma parseNat_toString: "parseNat (toString n) = n"
proof (induction n rule: toString.induct)
  case (1 n)
  show ?case
  proof (cases "n < 10")
    case True
    then show ?thesis
      by (simp add: toString.simps [of n] parseNat_def digitValue_digit)
  next
    case False
    then have "parseNat (toString (n div 10)) = n div 10"
      using "1.IH" by simp
    with False show ?thesis
      by (simp add: toString.simps [of n] parseNat_snoc digitValue_digit)
  qed
qed

lemma photos_handle:
  "photos (handle e s) = photos s \<or> photos (handle e s) = []
   \<or> (\<exists>url. photos (handle e s) =
         photos s @ [\<lparr>pid = toString (now s), dataUrl = url, timestamp = now s\<rparr>])"
proof (cases e)
  case (StartCamera env)
  then show ?thesis by simp
next
  case ClickTakePhoto
  then show ?thesis using clickTakePhoto_cases [of s] by auto
next
  case (IntervalTick env)
  then show ?thesis
    by (auto simp: intervalTick_photos capturePhoto_photos split: option.splits sum.splits)
qed simp_all

lemma now_handle: "now (handle e s) = now s"
  by (cases e) (simp_all add: clickTakePhoto_def)

lemma photos_handle_other:
  "\<not> isIntervalTick e \<Longrightarrow> photos (handle e s) = photos s \<or> photos (handle e s) = []"
proof (cases e)
  case (StartCamera env)
  then show ?thesis by simp
next
  case ClickTakePhoto
  then show ?thesis using clickTakePhoto_cases [of s] by auto
qed simp_all

lemma ids_below_tick:
  assumes "ids_below b s" and "b \<le> t"
  shows "ids_below (Suc t) (dispatch (t, e) s)"
proof -
  let ?s = "s\<lparr>now := t\<rparr>"
  have sorted: "sorted_wrt (<) (map (parseNat \<circ> pid) (photos s))"
    and below: "\<forall>p\<in>set (photos s). parseNat (pid p) < t"
    using assms by (auto simp: ids_below_def list_all_iff)
  have after: "photos (dispatch (t, e) s) = photos (handle e ?s)"
    by (simp add: dispatch_def)
  consider "photos (handle e ?s) = photos s" | "photos (handle e ?s) = []"
    | url where "photos (handle e ?s) =
        photos s @ [\<lparr>pid = toString t, dataUrl = url, timestamp = t\<rparr>]"
    using photos_handle [of e ?s] by auto
  then show ?thesis
  proof cases
    case 1
    with sorted below after show ?thesis
      by (auto simp: ids_below_def list_all_iff less_Suc_eq)
  next
    case 2
    with after show ?thesis
      by (simp add: ids_below_def)
  next
    case 3
    with sorted below after show ?thesis
      by (auto simp: ids_below_def list_all_iff sorted_wrt_append parseNat_toString
          less_Suc_eq)
  qed
qed

lemma ids_below_other:
  assumes "ids_below b s" and "\<not> isIntervalTick e"
  shows "ids_below b (dispatch (t, e) s)"
proof -
  have "photos (dispatch (t, e) s) = photos (handle e (s\<lparr>now := t\<rparr>))"
    by (simp add: dispatch_def)
  with photos_handle_other [OF assms(2), of "s\<lparr>now := t\<rparr>"]
  have "photos (dispatch (t, e) s) = photos s \<or> photos (dispatch (t, e) s) = []"
    by simp
  with assms(1) show ?thesis
    by (auto simp: ids_below_def)
qed

lemma ids_below_run:
  assumes "sorted_wrt (<) (tickTimes trace)" and "\<forall>t\<in>set (tickTimes trace). b \<le> t"
    and "ids_below b s"
  shows "\<exists>b'. ids_below b' (run trace s)"
  using assms
proof (induction trace arbitrary: b s)
  case Nil
  then show ?case by (auto simp: run_def)
next
  case (Cons te trace)
  obtain t e where te: "te = (t, e)"
    by (cases te)
  show ?case
  proof (cases "isIntervalTick e")
    case True
    then have times: "tickTimes (te # trace) = t # tickTimes trace"
      using te by (simp add: tickTimes_def)
    have step: "ids_below (Suc t) (dispatch (t, e) s)"
      using Cons.prems times by (intro ids_below_tick) auto
    have later: "\<forall>t'\<in>set (tickTimes trace). Suc t \<le> t'"
      using Cons.prems(1) times by auto
    have "sorted_wrt (<) (tickTimes trace)"
      using Cons.prems(1) times by simp
    from Cons.IH [OF this later step] te show ?thesis
      by (simp add: run_def)
  next
    case False
    then have times: "tickTimes (te # trace) = tickTimes trace"
      using te by (simp add: tickTimes_def)
    have step: "ids_below b (dispatch (t, e) s)"
      using Cons.prems(3) False by (rule ids_below_other)
    from Cons.IH [OF _ _ step] Cons.prems(1,2) times te show ?thesis
      by (simp add: run_def)
  qed
qed

lemma evaluate_twoCountdowns:
  "map pid (photos (run twoCountdowns (initialState 0))) = [''5000'', ''9000'']"
  by (simp add: twoCountdowns_def run_def dispatch_def
    startSession_def startCamera_def startCameraTry_def commit_def checkDevices_def
    requestCameraAccess_def waitForVideo_def goodCamera_def goodFrame_def
    startCountdown_def intervalTick_def capturePhoto_def currentClosure_def Let_def
    initialState_def addDebugInfo_def orElse_def toString.simps digit_def)

text \<open>
  C8, as the code has it. The identifier of a photo is the decimal numeral of the clock
  reading at its capture, and a capture happens when the interval of a countdown
  fires. The code reads the wall clock and does nothing else to keep identifiers
  apart. So when the clock reads strictly increasing values at the successive firings
  of the interval (they are a second apart), the identifiers of the photo sequence are
  pairwise distinct and, read as numbers, strictly increasing in capture order.
\<close>

theorem photo_ids_distinct_and_increasing:
  assumes "sorted_wrt (<) (tickTimes trace)"
  shows "distinct (map pid (photos (run trace (handleMaxPhotosChange N (initialState t0)))))
    \<and> sorted_wrt (<)
        (map (parseNat \<circ> pid) (photos (run trace (handleMaxPhotosChange N (initialState t0)))))"
proof -
  let ?s0 = "handleMaxPhotosChange N (initialState t0)"
  have "ids_below 0 ?s0"
    by (simp add: ids_below_def handleMaxPhotosChange_def)
  with assms obtain b where "ids_below b (run trace ?s0)"
    using ids_below_run [of trace 0 ?s0] by auto
  then have sorted: "sorted_wrt (<) (map (parseNat \<circ> pid) (photos (run trace ?s0)))"
    by (simp add: ids_below_def)
  then have "distinct (map (parseNat \<circ> pid) (photos (run trace ?s0)))"
    by (simp add: strict_sorted_iff)
  then have "distinct (photos (run trace ?s0))"
    and "inj_on (parseNat \<circ> pid) (set (photos (run trace ?s0)))"
    by (simp_all add: distinct_map)
  then have "distinct (map pid (photos (run trace ?s0)))"
    by (simp add: distinct_map inj_on_imageI2)
  with sorted show ?thesis by simp
qed

theorem photo_ids_distinct_and_increasing_witness:
  "sorted_wrt (<) (tickTimes twoCountdowns)
   \<and> map pid (photos (run twoCountdowns (handleMaxPhotosChange 4 (initialState 0))))
       = [''5000'', ''9000'']
   \<and> distinct (map pid (photos (run twoCountdowns (handleMaxPhotosChange 4 (initialState 0)))))
   \<and> map (parseNat \<circ> pid)
        (photos (run twoCountdowns (handleMaxPhotosChange 4 (initialState 0)))) = [5000, 9000]"
proof -
  have increasing: "sorted_wrt (<) (tickTimes twoCountdowns)"
    by (simp add: twoCountdowns_def tickTimes_def)
  have same: "handleMaxPhotosChange 4 (initialState 0) = initialState 0"
    by (simp add: handleMaxPhotosChange_def initialState_def)
  have ids: "map pid (photos (run twoCountdowns (handleMaxPhotosChange 4 (initialState 0))))
       = [''5000'', ''9000'']"
    by (simp only: same evaluate_twoCountdowns)
  have nums: "map (parseNat \<circ> pid)
        (photos (run twoCountdowns (handleMaxPhotosChange 4 (initialState 0)))) = [5000, 9000]"
  proof -
    have "map (parseNat \<circ> pid)
        (photos (run twoCountdowns (handleMaxPhotosChange 4 (initialState 0))))
        = map parseNat [''5000'', ''9000'']"
      using ids by (simp add: map_map [symmetric] del: map_map)
    then show ?thesis
      by (simp add: parseNat_def digitValue_def)
  qed
  from photo_ids_distinct_and_increasing [OF increasing, of 4 0]
  have "distinct (map pid (photos (run twoCountdowns (handleMaxPhotosChange 4 (initialState 0)))))"
    by blast
  with increasing ids nums show ?thesis by blast
qed

text \<open>
  C8 as stated fails: when the wall clock is set back between two captures, so that the
  second capture reads what the first one read, the two photos get the same identifier.
\<close>

theorem photo_ids_repeat_counterexample:
  "map pid (photos (run clockSetBack (initialState 0))) = [''5000'', ''5000'']
   \<and> \<not> distinct (map pid (photos (run clockSetBack (initialState 0))))"
proof -
  have "map pid (photos (run clockSetBack (initialState 0))) = [''5000'', ''5000'']"
    by (simp add: clockSetBack_def run_def dispatch_def
      startSession_def startCamera_def startCameraTry_def commit_def checkDevices_def
      requestCameraAccess_def waitForVideo_def goodCamera_def goodFrame_def
      startCountdown_def intervalTick_def capturePhoto_def currentClosure_def Let_def
      initialState_def addDebugInfo_def orElse_def toString.simps digit_def)
  then show ?thesis by simp
qed

subsection \<open>Camera acquisition\<close>

lemma requestCameraAccess_error [simp]:
  "error (snd (requestCameraAccess env s)) = error s"
  by (simp add: requestCameraAccess_def Let_def split: sum.splits)

lemma requestCameraAccess_second:
  assumes "idealConstraints env = Inl e" and "basicConstraints env = Inr stream"
  shows "requestCameraAccess env s =
    (Inr stream,
     addDebugInfo ''Camera access granted with basic constraints''
       (addDebugInfo
          (''Ideal constraints failed: '' @ errorText e @ '', trying basic constraints'') s))"
  using assms by (simp add: requestCameraAccess_def)

lemma checkDevices_fields [simp]:
  "error (checkDevices env s) = error s"
  "videoRef (checkDevices env s) = videoRef s"
  "streamRef (checkDevices env s) = streamRef s"
  "isStreaming (checkDevices env s) = isStreaming s"
  by (simp_all add: checkDevices_def Let_def split: sum.splits)

lemma waitForVideo_ready:
  assumes "sink env = LoadedMetadata \<or> sink env = LoadTimeout"
  shows "fst (waitForVideo env s) = Inr ()"
    and "error (snd (waitForVideo env s)) = error s"
    and "isStreaming (snd (waitForVideo env s))"
    and "streamRef (snd (waitForVideo env s)) = streamRef s"
    and "videoRef (snd (waitForVideo env s)) = videoRef s"
  using assms by (auto simp: waitForVideo_def Let_def split: option.splits)

lemma startCameraTry_second:
  assumes ideal: "idealConstraints env = Inl e"
    and basic: "basicConstraints env = Inr stream"
    and video: "videoRef s = Some videoElement"
    and supported: "getUserMediaSupported env"
    and ready: "sink env = LoadedMetadata \<or> sink env = LoadTimeout"
  shows "fst (startCameraTry env s) = Inr ()"
    and "error (snd (startCameraTry env s)) = error s"
    and "isStreaming (snd (startCameraTry env s))"
    and "streamRef (snd (startCameraTry env s)) = Some stream"
    and "videoRef (snd (startCameraTry env s)) = Some (videoElement\<lparr>srcObject := Some stream\<rparr>)"
proof -
  let ?s3 = "checkDevices env (addDebugInfo ''getUserMedia is supported''
               (addDebugInfo ''Video element found and captured'' s))"
  let ?s4 = "addDebugInfo ''Camera access granted with basic constraints''
       (addDebugInfo
          (''Ideal constraints failed: '' @ errorText e @ '', trying basic constraints'') ?s3)"
  let ?s6 = "addDebugInfo ''Stream assigned to video element''
               (?s4\<lparr>videoRef := Some (videoElement\<lparr>srcObject := Some stream\<rparr>),
                    streamRef := Some stream\<rparr>)"
  have req: "requestCameraAccess env ?s3 = (Inr stream, ?s4)"
    using ideal basic by (rule requestCameraAccess_second)
  obtain s7 where wait: "waitForVideo env ?s6 = (Inr (), s7)"
    using waitForVideo_ready(1) [OF ready, of ?s6] by (cases "waitForVideo env ?s6") auto
  have s7: "error s7 = error s" "isStreaming s7" "streamRef s7 = Some stream"
      "videoRef s7 = Some (videoElement\<lparr>srcObject := Some stream\<rparr>)"
    using waitForVideo_ready(2-5) [OF ready, of ?s6] wait by simp_all
  have result: "startCameraTry env s =
      (Inr (), addDebugInfo ''Camera started successfully'' s7)"
    using video supported req wait by (simp add: startCameraTry_def Let_def)
  show "fst (startCameraTry env s) = Inr ()"
    and "error (snd (startCameraTry env s)) = error s"
    and "isStreaming (snd (startCameraTry env s))"
    and "streamRef (snd (startCameraTry env s)) = Some stream"
    and "videoRef (snd (startCameraTry env s)) = Some (videoElement\<lparr>srcObject := Some stream\<rparr>)"
    using s7 by (simp_all add: result)
qed

text \<open>
  C6. When the attempt with the ideal constraints fails and the attempt with the basic
  constraints gives a stream, the fallback block (lines 133 to 169) returns that stream
  and leaves the error slot as it was. In \<open>startCamera\<close> as a whole, when the video
  element is mounted and \<open>getUserMedia\<close> exists, so that the attempts are made, and the
  video element then signals no error of its own, the camera is started on the stream
  of the second attempt: the ref and the video element hold it, the streaming flag is
  set, the loading flag is cleared, and the error slot is empty.
\<close>

theorem acquisition_falls_back_to_basic_constraints:
  assumes "idealConstraints env = Inl e" and "basicConstraints env = Inr stream"
  shows "fst (requestCameraAccess env s) = Inr stream
    \<and> error (snd (requestCameraAccess env s)) = error s
    \<and> (videoRef s \<noteq> None \<and> getUserMediaSupported env
          \<and> (sink env = LoadedMetadata \<or> sink env = LoadTimeout) \<longrightarrow>
        error (startCamera env s) = []
        \<and> streamRef (startCamera env s) = Some stream
        \<and> map_option srcObject (videoRef (startCamera env s)) = Some (Some stream)
        \<and> isStreaming (startCamera env s)
        \<and> \<not> isLoading (startCamera env s))"
proof (intro conjI impI)
  show "fst (requestCameraAccess env s) = Inr stream"
    using assms by (simp add: requestCameraAccess_second)
  show "error (snd (requestCameraAccess env s)) = error s"
    by simp
next
  assume reached: "videoRef s \<noteq> None \<and> getUserMediaSupported env
          \<and> (sink env = LoadedMetadata \<or> sink env = LoadTimeout)"
  let ?s1 = "addDebugInfo ''Starting camera...'' (s\<lparr>isLoading := True, error := []\<rparr>)"
  from reached obtain videoElement where video: "videoRef ?s1 = Some videoElement"
    by auto
  from reached have supported: "getUserMediaSupported env"
    and ready: "sink env = LoadedMetadata \<or> sink env = LoadTimeout"
    by simp_all
  note tried = startCameraTry_second [OF assms video supported ready]
  obtain s' where result: "startCameraTry env ?s1 = (Inr (), s')"
    using tried(1) by (cases "startCameraTry env ?s1") auto
  have s': "error s' = []" "isStreaming s'" "streamRef s' = Some stream"
      "videoRef s' = Some (videoElement\<lparr>srcObject := Some stream\<rparr>)"
    using tried(2-5) result by simp_all
  have final: "startCamera env s = s'\<lparr>isLoading := False\<rparr>"
    using result by (simp add: startCamera_def Let_def)
  show "error (startCamera env s) = []"
    and "streamRef (startCamera env s) = Some stream"
    and "map_option srcObject (videoRef (startCamera env s)) = Some (Some stream)"
    and "isStreaming (startCamera env s)"
    and "\<not> isLoading (startCamera env s)"
    using s' by (simp_all add: final)
qed

theorem acquisition_falls_back_to_basic_constraints_witness:
  "idealConstraints fallbackCamera =
     Inl \<lparr>errName = ''OverconstrainedError'', message = ''Constraints could not be satisfied''\<rparr>
   \<and> basicConstraints fallbackCamera = Inr exampleStream
   \<and> videoRef welcomeAfterStart \<noteq> None \<and> getUserMediaSupported fallbackCamera
   \<and> sink fallbackCamera = LoadedMetadata
   \<and> fst (requestCameraAccess fallbackCamera welcomeAfterStart) = Inr exampleStream
   \<and> error (startCamera fallbackCamera welcomeAfterStart) = []
   \<and> streamRef (startCamera fallbackCamera welcomeAfterStart) = Some exampleStream
   \<and> isStreaming (startCamera fallbackCamera welcomeAfterStart)"
proof -
  have ideal: "idealConstraints fallbackCamera =
     Inl \<lparr>errName = ''OverconstrainedError'', message = ''Constraints could not be satisfied''\<rparr>"
    and basic: "basicConstraints fallbackCamera = Inr exampleStream"
    and rest: "videoRef welcomeAfterStart \<noteq> None \<and> getUserMediaSupported fallbackCamera
      \<and> sink fallbackCamera = LoadedMetadata"
    by (simp_all add: fallbackCamera_def goodCamera_def welcomeAfterStart_def commit_def)
  note inst = acquisition_falls_back_to_basic_constraints
    [OF ideal basic, of welcomeAfterStart]
  from inst rest have "fst (requestCameraAccess fallbackCamera welcomeAfterStart) = Inr exampleStream
    \<and> error (startCamera fallbackCamera welcomeAfterStart) = []
    \<and> streamRef (startCamera fallbackCamera welcomeAfterStart) = Some exampleStream
    \<and> isStreaming (startCamera fallbackCamera welcomeAfterStart)"
    by blast
  with ideal basic rest show ?thesis by blast
qed

subsection \<open>Export as individual files\<close>

lemma downloadPhoto_downloads:
  "downloads (downloadPhoto fmt outcome ip s) =
     (if reachesClick (outcome (fst ip))
      then downloads s @ [photoLink fmt (fst ip) (snd ip)] else downloads s)"
  by (cases "outcome (fst ip)") (simp_all add: downloadPhoto_def Let_def)

lemma fold_downloadPhoto_downloads:
  "downloads (fold (downloadPhoto fmt outcome) ips s) =
     downloads s @
       map (\<lambda>ip. photoLink fmt (fst ip) (snd ip))
         (filter (\<lambda>ip. reachesClick (outcome (fst ip))) ips)"
  by (induction ips arbitrary: s) (simp_all add: downloadPhoto_downloads)

lemma exportPhotos_individual:
  assumes "fmt \<noteq> Pdf" and "photos s \<noteq> []"
  shows "exportPhotos fmt env s =
    (None,
     addDebugInfo (toString (length (photos s)) @ '' photos exported as '' @ formatName fmt)
       (fold (downloadPhoto fmt (linkOutcome env)) (enumerate 0 (photos s))
          (addDebugInfo
             (''Exporting '' @ toString (length (photos s)) @ '' photos as '' @ formatName fmt)
             s)))"
  using assms by (simp add: exportPhotos_def Let_def)

lemma filter_all: "(\<forall>x\<in>set xs. P x) \<Longrightarrow> filter P xs = xs"
  by (induction xs) simp_all

text \<open>
  C5. For a non-empty photo sequence and an individual format (png or jpeg), the export
  triggers the download of every photo whose own link reaches its click, in sequence
  order, and of no other: an exception at the link of one photo is caught there and
  takes away that photo's download only. With no such exception the downloads are
  exactly one per photo, \<open>K\<close> in all. The photo at index \<open>i\<close> (counted from 0) is named
  \<open>photo-\<close>, the numeral of \<open>i + 1\<close>, a dot, and the format.
\<close>

theorem individual_export_one_download_per_photo:
  assumes "fmt = Png \<or> fmt = Jpeg" and "photos s \<noteq> []"
  shows "downloads (snd (exportPhotos fmt env s)) =
      downloads s @
        map (\<lambda>ip. photoLink fmt (fst ip) (snd ip))
          (filter (\<lambda>ip. reachesClick (linkOutcome env (fst ip))) (enumerate 0 (photos s)))
    \<and> ((\<forall>i < length (photos s). reachesClick (linkOutcome env i)) \<longrightarrow>
         downloads (snd (exportPhotos fmt env s)) =
           downloads s @ map (\<lambda>ip. photoLink fmt (fst ip) (snd ip)) (enumerate 0 (photos s))
         \<and> length (downloads (snd (exportPhotos fmt env s))) =
             length (downloads s) + length (photos s))
    \<and> (\<forall>j < length (photos s). reachesClick (linkOutcome env j) \<longrightarrow>
         photoLink fmt j (photos s ! j) \<in> set (downloads (snd (exportPhotos fmt env s))))
    \<and> (\<forall>i p. filename (photoLink fmt i p) =
          ''photo-'' @ toString (i + 1) @ ''.'' @ (if fmt = Png then ''png'' else ''jpeg''))"
proof -
  let ?links = "map (\<lambda>ip. photoLink fmt (fst ip) (snd ip))
          (filter (\<lambda>ip. reachesClick (linkOutcome env (fst ip))) (enumerate 0 (photos s)))"
  from assms have individual: "fmt \<noteq> Pdf"
    by auto
  have all: "downloads (snd (exportPhotos fmt env s)) = downloads s @ ?links"
    by (simp add: exportPhotos_individual [OF individual assms(2)]
        fold_downloadPhoto_downloads)
  have none_fail: "(\<forall>i < length (photos s). reachesClick (linkOutcome env i)) \<longrightarrow>
         downloads (snd (exportPhotos fmt env s)) =
           downloads s @ map (\<lambda>ip. photoLink fmt (fst ip) (snd ip)) (enumerate 0 (photos s))
         \<and> length (downloads (snd (exportPhotos fmt env s))) =
             length (downloads s) + length (photos s)"
  proof
    assume ok: "\<forall>i < length (photos s). reachesClick (linkOutcome env i)"
    have "\<forall>ip\<in>set (enumerate 0 (photos s)). reachesClick (linkOutcome env (fst ip))"
      using ok by (auto simp: in_set_enumerate_eq)
    then have "filter (\<lambda>ip. reachesClick (linkOutcome env (fst ip))) (enumerate 0 (photos s))
        = enumerate 0 (photos s)"
      by (rule filter_all)
    with all show "downloads (snd (exportPhotos fmt env s)) =
           downloads s @ map (\<lambda>ip. photoLink fmt (fst ip) (snd ip)) (enumerate 0 (photos s))
         \<and> length (downloads (snd (exportPhotos fmt env s))) =
             length (downloads s) + length (photos s)"
      by simp
  qed
  have isolated: "\<forall>j < length (photos s). reachesClick (linkOutcome env j) \<longrightarrow>
         photoLink fmt j (photos s ! j) \<in> set (downloads (snd (exportPhotos fmt env s)))"
  proof (intro allI impI)
    fix j
    assume j: "j < length (photos s)" and ok: "reachesClick (linkOutcome env j)"
    from j have "(j, photos s ! j) \<in> set (enumerate 0 (photos s))"
      by (simp add: in_set_enumerate_eq)
    with ok have "(j, photos s ! j) \<in>
        set (filter (\<lambda>ip. reachesClick (linkOutcome env (fst ip))) (enumerate 0 (photos s)))"
      by simp
    then have "photoLink fmt j (photos s ! j) \<in> set ?links"
      by force
    with all show "photoLink fmt j (photos s ! j) \<in> set (downloads (snd (exportPhotos fmt env s)))"
      by simp
  qed
  have names: "\<forall>i p. filename (photoLink fmt i p) =
          ''photo-'' @ toString (i + 1) @ ''.'' @ (if fmt = Png then ''png'' else ''jpeg'')"
    using assms(1) by (auto simp: photoLink_def formatName_def)
  from all none_fail isolated names show ?thesis
    by blast
qed

theorem individual_export_one_download_per_photo_witness:
  "photos twoPhotos \<noteq> [] \<and> length (photos twoPhotos) = 2
   \<and> reachesClick (linkOutcome allClicked 0) \<and> reachesClick (linkOutcome allClicked 1)
   \<and> map filename (downloads (snd (exportPhotos Png allClicked twoPhotos)))
       = [''photo-1.png'', ''photo-2.png'']
   \<and> \<not> reachesClick (linkOutcome firstLinkThrows 0)
   \<and> reachesClick (linkOutcome firstLinkThrows 1)
   \<and> downloads (snd (exportPhotos Jpeg firstLinkThrows twoPhotos))
       = [\<lparr>filename = ''photo-2.jpeg'', href = ''data:image/jpeg;base64,BBBB''\<rparr>]
   \<and> photoLink Jpeg 1 (photos twoPhotos ! 1)
       \<in> set (downloads (snd (exportPhotos Jpeg firstLinkThrows twoPhotos)))"
proof -
  have nonempty: "photos twoPhotos \<noteq> []"
    by (simp add: twoPhotos_def)
  have list: "enumerate 0 (photos twoPhotos) =
      [(0, \<lparr>pid = ''5000'', dataUrl = ''data:image/png;base64,AAAA'', timestamp = 5000\<rparr>),
       (1, \<lparr>pid = ''9000'', dataUrl = ''data:image/png;base64,BBBB'', timestamp = 9000\<rparr>)]"
    by (simp add: twoPhotos_def)
  have start: "downloads twoPhotos = []"
    by (simp add: twoPhotos_def)
  have two: "length (photos twoPhotos) = 2"
    by (simp add: twoPhotos_def)
  have all_click: "\<forall>i < length (photos twoPhotos). reachesClick (linkOutcome allClicked i)"
    by (simp add: allClicked_def)
  from individual_export_one_download_per_photo [of Png twoPhotos allClicked]
    nonempty all_click
  have "downloads (snd (exportPhotos Png allClicked twoPhotos)) =
      downloads twoPhotos @
        map (\<lambda>ip. photoLink Png (fst ip) (snd ip)) (enumerate 0 (photos twoPhotos))"
    by blast
  then have png: "map filename (downloads (snd (exportPhotos Png allClicked twoPhotos)))
       = [''photo-1.png'', ''photo-2.png'']"
    by (simp add: list start photoLink_def formatName_def toString.simps digit_def)
  have first: "\<not> reachesClick (linkOutcome firstLinkThrows 0)"
    and second: "reachesClick (linkOutcome firstLinkThrows 1)"
    by (simp_all add: firstLinkThrows_def)
  note jpeg_export = individual_export_one_download_per_photo [of Jpeg twoPhotos firstLinkThrows]
  from jpeg_export nonempty
  have "downloads (snd (exportPhotos Jpeg firstLinkThrows twoPhotos)) =
      downloads twoPhotos @
        map (\<lambda>ip. photoLink Jpeg (fst ip) (snd ip))
          (filter (\<lambda>ip. reachesClick (linkOutcome firstLinkThrows (fst ip)))
            (enumerate 0 (photos twoPhotos)))"
    by blast
  then have jpeg: "downloads (snd (exportPhotos Jpeg firstLinkThrows twoPhotos))
       = [\<lparr>filename = ''photo-2.jpeg'', href = ''data:image/jpeg;base64,BBBB''\<rparr>]"
    by (simp add: list start firstLinkThrows_def photoLink_def formatName_def
        toString.simps digit_def startsWith_def)
  from jpeg_export nonempty second two
  have isolated: "photoLink Jpeg 1 (photos twoPhotos ! 1)
       \<in> set (downloads (snd (exportPhotos Jpeg firstLinkThrows twoPhotos)))"
    by (metis Suc_1 lessI)
  have "reachesClick (linkOutcome allClicked 0) \<and> reachesClick (linkOutcome allClicked 1)"
    by (simp add: allClicked_def)
  with nonempty two png first second jpeg isolated show ?thesis
    by blast
qed

subsection \<open>The collage\<close>

lemma ceiling_half: "\<lceil>real n / 2\<rceil> = int ((n + 1) div 2)"
proof -
  have "n = 2 * (n div 2) \<or> n = 2 * (n div 2) + 1"
    by arith
  then show ?thesis
  proof
    assume even: "n = 2 * (n div 2)"
    then have "real n = 2 * real (n div 2)"
      by (metis of_nat_mult of_nat_numeral)
    then have "real n / 2 = real (n div 2)"
      by simp
    moreover have "(n + 1) div 2 = n div 2"
      using even by arith
    ultimately show ?thesis by simp
  next
    assume odd: "n = 2 * (n div 2) + 1"
    then have "real n = 2 * real (n div 2) + 1"
      by (metis of_nat_1 of_nat_add of_nat_mult of_nat_numeral)
    then have "real n / 2 = real (n div 2) + 1 / 2"
      by simp
    moreover have "(n + 1) div 2 = n div 2 + 1"
      using odd by arith
    ultimately show ?thesis by (simp add: ceiling_unique)
  qed
qed

lemma collage_rows: "nat \<lceil>real n / real photosPerRow\<rceil> = (n + 1) div 2"
  by (simp add: photosPerRow_def ceiling_half)

lemma collage_row_of: "nat \<lfloor>real index / real photosPerRow\<rfloor> = index div 2"
  by (simp add: photosPerRow_def floor_divide_of_nat_eq [of index 2, simplified])

text \<open>Every image on the canvas sits in the cell of its index.\<close>

lemma collageSettle_job:
  assumes "collageSettle e (job, s) = (job', s')"
  shows "canvasWidth job' = canvasWidth job"
    and "canvasHeight job' = canvasHeight job"
    and "totalPhotos job' = totalPhotos job"
    and "images job' = images job"
    and "loadedCount job \<le> loadedCount job'"
    and "loadedCount job' \<le> loadedCount job + 1"
  using assms
  by (cases e; auto simp: Let_def split: option.splits link_outcome.splits if_splits)+

lemma collageSettle_drawn:
  assumes "collageSettle e (job, s) = (job', s')"
  shows "drawn job' = drawn job \<or>
         (settleIndex e < length (images job) \<and>
          drawn job' = drawn job @
            [\<lparr>imageIndex = settleIndex e, imageSrc = images job ! settleIndex e,
              dx = margin + (settleIndex e mod photosPerRow) * (photoSize + margin),
              dy = margin + (settleIndex e div 2) * (photoSize + margin),
              dWidth = photoSize, dHeight = photoSize\<rparr>])"
  using assms
  by (cases e)
     (auto simp: Let_def collage_row_of split: option.splits link_outcome.splits if_splits)

lemma collageSettle_downloads:
  assumes "collageSettle e (job, s) = (job', s')"
  shows "downloads s' = downloads s \<or>
         (loadedCount job' = totalPhotos job \<and> loadedCount job' = loadedCount job + 1
          \<and> (\<exists>link. downloads s' = downloads s @ [link]))"
  using assms
  by (cases e) (auto simp: Let_def split: option.splits link_outcome.splits if_splits)

lemma in_cell_of_index:
  "i < length imgs \<Longrightarrow>
   in_cell imgs \<lparr>imageIndex = i, imageSrc = imgs ! i,
            dx = margin + (i mod photosPerRow) * (photoSize + margin),
            dy = margin + (i div 2) * (photoSize + margin),
            dWidth = photoSize, dHeight = photoSize\<rparr>"
  by (simp add: in_cell_def photosPerRow_def)

lemma collageSettle_cells:
  assumes "collageSettle e (job, s) = (job', s')"
    and "\<forall>d\<in>set (drawn job). in_cell (images job) d"
  shows "\<forall>d\<in>set (drawn job'). in_cell (images job') d"
proof -
  have same: "images job' = images job"
    using assms(1) by (rule collageSettle_job(4))
  from collageSettle_drawn [OF assms(1)] show ?thesis
  proof
    assume "drawn job' = drawn job"
    with assms(2) same show ?thesis by simp
  next
    assume new: "settleIndex e < length (images job) \<and>
          drawn job' = drawn job @
            [\<lparr>imageIndex = settleIndex e, imageSrc = images job ! settleIndex e,
              dx = margin + (settleIndex e mod photosPerRow) * (photoSize + margin),
              dy = margin + (settleIndex e div 2) * (photoSize + margin),
              dWidth = photoSize, dHeight = photoSize\<rparr>]"
    then have "in_cell (images job)
        \<lparr>imageIndex = settleIndex e, imageSrc = images job ! settleIndex e,
              dx = margin + (settleIndex e mod photosPerRow) * (photoSize + margin),
              dy = margin + (settleIndex e div 2) * (photoSize + margin),
              dWidth = photoSize, dHeight = photoSize\<rparr>"
      by (intro in_cell_of_index) simp
    with new assms(2) same show ?thesis
      by auto
  qed
qed

lemma fold_collageSettle_cells:
  assumes "fold collageSettle settles (job, s) = (job', s')"
    and "\<forall>d\<in>set (drawn job). in_cell (images job) d"
  shows "\<forall>d\<in>set (drawn job'). in_cell (images job') d"
  using assms
proof (induction settles arbitrary: job s)
  case Nil
  then show ?case by simp
next
  case (Cons e settles)
  obtain job1 s1 where first: "collageSettle e (job, s) = (job1, s1)"
    by (cases "collageSettle e (job, s)")
  with Cons.prems have rest: "fold collageSettle settles (job1, s1) = (job', s')"
    by simp
  have "\<forall>d\<in>set (drawn job1). in_cell (images job1) d"
    using first Cons.prems(2) by (rule collageSettle_cells)
  with rest show ?case by (rule Cons.IH)
qed

lemma fold_collageSettle_job:
  assumes "fold collageSettle settles (job, s) = (job', s')"
  shows "canvasWidth job' = canvasWidth job \<and> canvasHeight job' = canvasHeight job
    \<and> totalPhotos job' = totalPhotos job \<and> images job' = images job"
  using assms
proof (induction settles arbitrary: job s)
  case Nil
  then show ?case by simp
next
  case (Cons e settles)
  obtain job1 s1 where first: "collageSettle e (job, s) = (job1, s1)"
    by (cases "collageSettle e (job, s)")
  with Cons.prems have rest: "fold collageSettle settles (job1, s1) = (job', s')"
    by simp
  from Cons.IH [OF rest] collageSettle_job(1,2,3,4) [OF first] show ?case
    by simp
qed

lemma fold_collageSettle_early:
  assumes "fold collageSettle settles (job, s) = (job', s')"
    and "loadedCount job + length settles < totalPhotos job"
  shows "downloads s' = downloads s"
  using assms
proof (induction settles arbitrary: job s)
  case Nil
  then show ?case by simp
next
  case (Cons e settles)
  obtain job1 s1 where first: "collageSettle e (job, s) = (job1, s1)"
    by (cases "collageSettle e (job, s)")
  with Cons.prems have rest: "fold collageSettle settles (job1, s1) = (job', s')"
    by simp
  note one = collageSettle_job [OF first]
  have "loadedCount job1 + length settles < totalPhotos job1"
    using one(3,6) Cons.prems(2) by simp
  from Cons.IH [OF rest this] have "downloads s' = downloads s1" .
  moreover have "downloads s1 = downloads s"
    using collageSettle_downloads [OF first] Cons.prems(2) by auto
  ultimately show ?case by simp
qed

lemma fold_collageSettle_at_most_one:
  assumes "fold collageSettle settles (job, s) = (job', s')"
  shows "length (downloads s') \<le>
           length (downloads s) + (if loadedCount job < totalPhotos job then 1 else 0)"
  using assms
proof (induction settles arbitrary: job s)
  case Nil
  then show ?case by simp
next
  case (Cons e settles)
  obtain job1 s1 where first: "collageSettle e (job, s) = (job1, s1)"
    by (cases "collageSettle e (job, s)")
  with Cons.prems have rest: "fold collageSettle settles (job1, s1) = (job', s')"
    by simp
  note one = collageSettle_job [OF first]
  note later = Cons.IH [OF rest]
  from collageSettle_downloads [OF first] show ?case
  proof
    assume "downloads s1 = downloads s"
    with later one(3,5) show ?thesis
      by (auto split: if_splits)
  next
    assume "loadedCount job1 = totalPhotos job \<and> loadedCount job1 = loadedCount job + 1
          \<and> (\<exists>link. downloads s1 = downloads s @ [link])"
    with later one(3) show ?thesis
      by (auto split: if_splits)
  qed
qed

lemma exportPhotos_collage:
  "exportPhotos Pdf env s =
     (if photos s = [] then (None, s)
      else if \<not> exportCtxAvailable env
      then (None,
            addDebugInfo ''Could not get export canvas context''
              (addDebugInfo
                 (''Exporting '' @ toString (length (photos s)) @ '' photos as pdf'') s))
      else (Some (startCollage (photos s)),
            addDebugInfo
              (''Exporting '' @ toString (length (photos s)) @ '' photos as pdf'') s))"
  by (simp add: exportPhotos_def Let_def formatName_def)

lemma exportCollage_Some:
  assumes "exportCollage env settles s = (Some job, s')"
  shows "fold collageSettle settles
           (startCollage (photos s),
            addDebugInfo
              (''Exporting '' @ toString (length (photos s)) @ '' photos as pdf'') s)
         = (job, s')"
  using assms
  by (auto simp: exportCollage_def exportPhotos_collage split: if_splits prod.splits)

lemma cellDraw_row:
  "cellDraw imgs i =
    \<lparr>imageIndex = i, imageSrc = imgs ! i,
     dx = margin + (i mod photosPerRow) * (photoSize + margin),
     dy = margin + nat \<lfloor>real i / real photosPerRow\<rfloor> * (photoSize + margin),
     dWidth = photoSize, dHeight = photoSize\<rparr>"
  unfolding collage_row_of by (simp add: cellDraw_def photosPerRow_def)

lemma collageSettle_draws:
  assumes "collageSettle e (job, s) = (job', s')"
  shows "drawn job' = drawn job @
           (if drawsImage (length (images job)) e
            then [cellDraw (images job) (settleIndex e)] else [])"
  using assms
  by (cases e)
     (auto simp: Let_def cellDraw_row
           split: option.splits link_outcome.splits if_splits)

lemma fold_collageSettle_draws:
  assumes "fold collageSettle settles (job, s) = (job', s')"
  shows "drawn job' = drawn job @
           map (\<lambda>e. cellDraw (images job) (settleIndex e))
             (filter (drawsImage (length (images job))) settles)"
  using assms
proof (induction settles arbitrary: job s)
  case Nil
  then show ?case by simp
next
  case (Cons e settles)
  obtain job1 s1 where first: "collageSettle e (job, s) = (job1, s1)"
    by (cases "collageSettle e (job, s)")
  with Cons.prems have rest: "fold collageSettle settles (job1, s1) = (job', s')"
    by simp
  have same: "images job1 = images job"
    using first by (rule collageSettle_job(4))
  have "drawn job' = drawn job1 @
           map (\<lambda>e. cellDraw (images job) (settleIndex e))
             (filter (drawsImage (length (images job))) settles)"
    using Cons.IH [OF rest] by (simp only: same)
  with collageSettle_draws [OF first] show ?case
    by simp
qed

lemma exportCollage_started:
  assumes "photos s \<noteq> []" and "exportCtxAvailable env"
  shows "\<exists>job s'. exportCollage env settles s = (Some job, s')"
  using assms
  by (simp add: exportCollage_def exportPhotos_collage split: prod.splits)

text \<open>
  C7. The canvas of the collage is \<open>photosPerRow * photoSize + (photosPerRow + 1) * margin\<close>
  wide, that is 660, and \<open>ceil(n / photosPerRow) * (photoSize + margin) + margin\<close> tall for
  \<open>n\<close> photos, with 2 photos per row, cells of 300 and a margin of 20. Whatever the
  order in which the decodes settle, and whichever of them fail, the canvas keeps that
  size and every image drawn on it is the image of the photo at its index \<open>i\<close>, drawn
  in the cell of that index: at \<open>x = margin + (i mod 2) * (photoSize + margin)\<close> and
  \<open>y = margin + (i div 2) * (photoSize + margin)\<close>, 300 by 300. The images drawn are
  exactly those of the decodes that load and whose \<open>drawImage\<close> does not throw, one
  draw for each, in the order in which they settle: the photo at index \<open>i\<close> whose decode
  loads is drawn, in row \<open>i div 2\<close> and column \<open>i mod 2\<close>.
\<close>

theorem collage_layout_by_index:
  "photosPerRow = 2 \<and> photoSize = 300 \<and> margin = 20
   \<and> canvasWidth (startCollage ps) = photosPerRow * photoSize + (photosPerRow + 1) * margin
   \<and> canvasWidth (startCollage ps) = 660
   \<and> int (canvasHeight (startCollage ps)) =
        \<lceil>real (length ps) / real photosPerRow\<rceil> * (int photoSize + int margin) + int margin
   \<and> canvasHeight (startCollage ps) = ((length ps + 1) div 2) * 320 + 20
   \<and> (exportCollage env settles s = (Some job, s') \<longrightarrow>
        canvasWidth job = 660
        \<and> canvasHeight job = ((length (photos s) + 1) div 2) * 320 + 20
        \<and> (\<forall>d\<in>set (drawn job).
              imageIndex d < length (photos s)
              \<and> imageSrc d = dataUrl (photos s ! imageIndex d)
              \<and> dx d = margin + (imageIndex d mod photosPerRow) * (photoSize + margin)
              \<and> dy d = margin + (imageIndex d div photosPerRow) * (photoSize + margin)
              \<and> dx d = 20 + (imageIndex d mod 2) * 320
              \<and> dy d = 20 + (imageIndex d div 2) * 320
              \<and> dWidth d = 300 \<and> dHeight d = 300)
        \<and> drawn job =
            map (\<lambda>e. cellDraw (map dataUrl (photos s)) (settleIndex e))
              (filter (drawsImage (length (photos s))) settles)
        \<and> (\<forall>index lenv.
              OnLoad index lenv \<in> set settles \<and> index < length (photos s)
              \<and> drawError lenv = None \<longrightarrow>
              \<lparr>imageIndex = index, imageSrc = dataUrl (photos s ! index),
               dx = 20 + (index mod 2) * 320, dy = 20 + (index div 2) * 320,
               dWidth = 300, dHeight = 300\<rparr> \<in> set (drawn job)))"
proof (intro conjI impI)
  show "photosPerRow = 2" and "photoSize = 300" and "margin = 20"
    by (simp_all add: photosPerRow_def photoSize_def margin_def)
  show "canvasWidth (startCollage ps) = photosPerRow * photoSize + (photosPerRow + 1) * margin"
    by (simp add: startCollage_def)
  show width: "canvasWidth (startCollage ps) = 660"
    by (simp add: startCollage_def photosPerRow_def photoSize_def margin_def)
  have rows: "0 \<le> \<lceil>real (length ps) / real photosPerRow\<rceil>"
    by (simp add: photosPerRow_def)
  show "int (canvasHeight (startCollage ps)) =
        \<lceil>real (length ps) / real photosPerRow\<rceil> * (int photoSize + int margin) + int margin"
    using rows by (simp add: startCollage_def distrib_left)
  show height: "canvasHeight (startCollage ps) = ((length ps + 1) div 2) * 320 + 20"
    by (simp add: startCollage_def collage_rows photoSize_def margin_def)
next
  assume "exportCollage env settles s = (Some job, s')"
  then have settled: "fold collageSettle settles
           (startCollage (photos s),
            addDebugInfo
              (''Exporting '' @ toString (length (photos s)) @ '' photos as pdf'') s)
         = (job, s')"
    by (rule exportCollage_Some)
  note kept = fold_collageSettle_job [OF settled]
  from kept show "canvasWidth job = 660"
    by (simp add: startCollage_def photosPerRow_def photoSize_def margin_def)
  from kept show "canvasHeight job = ((length (photos s) + 1) div 2) * 320 + 20"
    by (simp add: startCollage_def collage_rows photoSize_def margin_def)
  from kept have sources: "images job = map dataUrl (photos s)"
    by (simp add: startCollage_def)
  have "\<forall>d\<in>set (drawn (startCollage (photos s))).
          in_cell (images (startCollage (photos s))) d"
    by (simp add: startCollage_def)
  with settled have "\<forall>d\<in>set (drawn job). in_cell (images job) d"
    by (rule fold_collageSettle_cells)
  then have cells: "\<forall>d\<in>set (drawn job). in_cell (map dataUrl (photos s)) d"
    by (simp only: sources)
  show "\<forall>d\<in>set (drawn job).
              imageIndex d < length (photos s)
              \<and> imageSrc d = dataUrl (photos s ! imageIndex d)
              \<and> dx d = margin + (imageIndex d mod photosPerRow) * (photoSize + margin)
              \<and> dy d = margin + (imageIndex d div photosPerRow) * (photoSize + margin)
              \<and> dx d = 20 + (imageIndex d mod 2) * 320
              \<and> dy d = 20 + (imageIndex d div 2) * 320
              \<and> dWidth d = 300 \<and> dHeight d = 300"
  proof
    fix d
    assume "d \<in> set (drawn job)"
    with cells have "in_cell (map dataUrl (photos s)) d"
      by blast
    then show "imageIndex d < length (photos s)
              \<and> imageSrc d = dataUrl (photos s ! imageIndex d)
              \<and> dx d = margin + (imageIndex d mod photosPerRow) * (photoSize + margin)
              \<and> dy d = margin + (imageIndex d div photosPerRow) * (photoSize + margin)
              \<and> dx d = 20 + (imageIndex d mod 2) * 320
              \<and> dy d = 20 + (imageIndex d div 2) * 320
              \<and> dWidth d = 300 \<and> dHeight d = 300"
      by (simp add: in_cell_def photosPerRow_def photoSize_def margin_def)
  qed
  from fold_collageSettle_draws [OF settled]
  show exact: "drawn job =
            map (\<lambda>e. cellDraw (map dataUrl (photos s)) (settleIndex e))
              (filter (drawsImage (length (photos s))) settles)"
    by (simp add: startCollage_def)
  show "\<forall>index lenv.
              OnLoad index lenv \<in> set settles \<and> index < length (photos s)
              \<and> drawError lenv = None \<longrightarrow>
              \<lparr>imageIndex = index, imageSrc = dataUrl (photos s ! index),
               dx = 20 + (index mod 2) * 320, dy = 20 + (index div 2) * 320,
               dWidth = 300, dHeight = 300\<rparr> \<in> set (drawn job)"
  proof (intro allI impI)
    fix index lenv
    assume loaded: "OnLoad index lenv \<in> set settles \<and> index < length (photos s)
              \<and> drawError lenv = None"
    then have "OnLoad index lenv \<in> set (filter (drawsImage (length (photos s))) settles)"
      by simp
    then have "(\<lambda>e. cellDraw (map dataUrl (photos s)) (settleIndex e)) (OnLoad index lenv)
        \<in> (\<lambda>e. cellDraw (map dataUrl (photos s)) (settleIndex e)) `
            set (filter (drawsImage (length (photos s))) settles)"
      by (rule imageI)
    then have "cellDraw (map dataUrl (photos s)) (settleIndex (OnLoad index lenv))
        \<in> set (drawn job)"
      by (simp only: exact set_map)
    moreover have "cellDraw (map dataUrl (photos s)) (settleIndex (OnLoad index lenv)) =
        \<lparr>imageIndex = index, imageSrc = dataUrl (photos s ! index),
               dx = 20 + (index mod 2) * 320, dy = 20 + (index div 2) * 320,
               dWidth = 300, dHeight = 300\<rparr>"
      using loaded by (simp add: cellDraw_def photosPerRow_def photoSize_def margin_def)
    ultimately show "\<lparr>imageIndex = index, imageSrc = dataUrl (photos s ! index),
               dx = 20 + (index mod 2) * 320, dy = 20 + (index div 2) * 320,
               dWidth = 300, dHeight = 300\<rparr> \<in> set (drawn job)"
      by simp
  qed
qed

theorem collage_layout_by_index_witness:
  "map_option canvasWidth
     (fst (exportCollage allClicked [OnLoad 2 loadsFine, OnError 1, OnLoad 0 loadsFine]
        threePhotos)) = Some 660
   \<and> map_option canvasHeight
     (fst (exportCollage allClicked [OnLoad 2 loadsFine, OnError 1, OnLoad 0 loadsFine]
        threePhotos)) = Some 660
   \<and> map_option drawn
     (fst (exportCollage allClicked [OnLoad 2 loadsFine, OnError 1, OnLoad 0 loadsFine]
        threePhotos)) =
     Some [\<lparr>imageIndex = 2, imageSrc = ''data:image/png;base64,DDDD'',
            dx = 20, dy = 340, dWidth = 300, dHeight = 300\<rparr>,
           \<lparr>imageIndex = 0, imageSrc = ''data:image/png;base64,AAAA'',
            dx = 20, dy = 20, dWidth = 300, dHeight = 300\<rparr>]
   \<and> map_option drawn
     (fst (exportCollage allClicked [OnLoad 1 loadsFine, OnLoad 0 loadsFine, OnLoad 2 loadsFine]
        threePhotos)) =
     Some [\<lparr>imageIndex = 1, imageSrc = ''data:image/png;base64,BBBB'',
            dx = 340, dy = 20, dWidth = 300, dHeight = 300\<rparr>,
           \<lparr>imageIndex = 0, imageSrc = ''data:image/png;base64,AAAA'',
            dx = 20, dy = 20, dWidth = 300, dHeight = 300\<rparr>,
           \<lparr>imageIndex = 2, imageSrc = ''data:image/png;base64,DDDD'',
            dx = 20, dy = 340, dWidth = 300, dHeight = 300\<rparr>]"
proof -
  let ?failing = "[OnLoad 2 loadsFine, OnError 1, OnLoad 0 loadsFine]"
  let ?loading = "[OnLoad 1 loadsFine, OnLoad 0 loadsFine, OnLoad 2 loadsFine]"
  have three: "photos threePhotos =
      [\<lparr>pid = ''5000'', dataUrl = ''data:image/png;base64,AAAA'', timestamp = 5000\<rparr>,
       \<lparr>pid = ''9000'', dataUrl = ''data:image/png;base64,BBBB'', timestamp = 9000\<rparr>,
       \<lparr>pid = ''13000'', dataUrl = ''data:image/png;base64,DDDD'', timestamp = 13000\<rparr>]"
    by (simp add: threePhotos_def twoPhotos_def)
  have ctx: "exportCtxAvailable allClicked"
    by (simp add: allClicked_def)
  have nonempty: "photos threePhotos \<noteq> []"
    by (simp add: three)
  obtain job1 s1 where first: "exportCollage allClicked ?failing threePhotos = (Some job1, s1)"
    using exportCollage_started [OF nonempty ctx] by blast
  obtain job2 s2 where second: "exportCollage allClicked ?loading threePhotos = (Some job2, s2)"
    using exportCollage_started [OF nonempty ctx] by blast
  note at_first = collage_layout_by_index
    [of "photos threePhotos" allClicked ?failing threePhotos job1 s1]
  note at_second = collage_layout_by_index
    [of "photos threePhotos" allClicked ?loading threePhotos job2 s2]
  from at_first first have width: "canvasWidth job1 = 660"
    and height: "canvasHeight job1 = ((length (photos threePhotos) + 1) div 2) * 320 + 20"
    and drawn1: "drawn job1 =
            map (\<lambda>e. cellDraw (map dataUrl (photos threePhotos)) (settleIndex e))
              (filter (drawsImage (length (photos threePhotos))) ?failing)"
    by blast+
  from at_second second have drawn2: "drawn job2 =
            map (\<lambda>e. cellDraw (map dataUrl (photos threePhotos)) (settleIndex e))
              (filter (drawsImage (length (photos threePhotos))) ?loading)"
    by blast
  from height have tall: "canvasHeight job1 = 660"
    by (simp add: three)
  from drawn1 have list1: "drawn job1 =
     [\<lparr>imageIndex = 2, imageSrc = ''data:image/png;base64,DDDD'',
            dx = 20, dy = 340, dWidth = 300, dHeight = 300\<rparr>,
           \<lparr>imageIndex = 0, imageSrc = ''data:image/png;base64,AAAA'',
            dx = 20, dy = 20, dWidth = 300, dHeight = 300\<rparr>]"
    by (simp add: three loadsFine_def cellDraw_def photosPerRow_def photoSize_def margin_def)
  from drawn2 have list2: "drawn job2 =
     [\<lparr>imageIndex = 1, imageSrc = ''data:image/png;base64,BBBB'',
            dx = 340, dy = 20, dWidth = 300, dHeight = 300\<rparr>,
           \<lparr>imageIndex = 0, imageSrc = ''data:image/png;base64,AAAA'',
            dx = 20, dy = 20, dWidth = 300, dHeight = 300\<rparr>,
           \<lparr>imageIndex = 2, imageSrc = ''data:image/png;base64,DDDD'',
            dx = 20, dy = 340, dWidth = 300, dHeight = 300\<rparr>]"
    by (simp add: three loadsFine_def cellDraw_def photosPerRow_def photoSize_def margin_def)
  from first second width tall list1 list2 show ?thesis
    by simp
qed

subsection \<open>When the collage is downloaded\<close>

text \<open>
  The download of the collage is triggered in \<open>img.onload\<close> only, by the callback that
  brings \<open>loadedCount\<close> to \<open>totalPhotos\<close>. So nothing is downloaded while fewer decodes
  have settled than there are photos, and one export downloads at most one collage.
\<close>

lemma collage_not_before_all_settled:
  assumes "exportCollage env settles s = (Some job, s')"
    and "length settles < length (photos s)"
  shows "downloads s' = downloads s"
proof -
  let ?s1 = "addDebugInfo
      (''Exporting '' @ toString (length (photos s)) @ '' photos as pdf'') s"
  have settled: "fold collageSettle settles (startCollage (photos s), ?s1) = (job, s')"
    using assms(1) by (rule exportCollage_Some)
  have "loadedCount (startCollage (photos s)) + length settles
        < totalPhotos (startCollage (photos s))"
    using assms(2) by (simp add: startCollage_def)
  with settled have "downloads s' = downloads ?s1"
    by (rule fold_collageSettle_early)
  then show ?thesis by simp
qed

lemma collage_at_most_one_download:
  assumes "exportCollage env settles s = (Some job, s')"
  shows "length (downloads s') \<le> length (downloads s) + 1"
proof -
  let ?s1 = "addDebugInfo
      (''Exporting '' @ toString (length (photos s)) @ '' photos as pdf'') s"
  have settled: "fold collageSettle settles (startCollage (photos s), ?s1) = (job, s')"
    using assms by (rule exportCollage_Some)
  from fold_collageSettle_at_most_one [OF settled] show ?thesis
    by (simp split: if_splits)
qed

text \<open>
  C4 does not hold of the code. With two photos, when the first image loads and the
  second then fails to decode, all decodes have settled and nothing is downloaded: the
  \<open>onerror\<close> callback that brings \<open>loadedCount\<close> to \<open>totalPhotos\<close> only logs "Completed
  with errors". With the same two outcomes in the other order, the \<open>onload\<close> callback
  comes last and the collage is downloaded once.
\<close>

theorem collage_not_downloaded_when_last_decode_fails:
  "downloads (snd (exportCollage allClicked [OnLoad 0 loadsFine, OnError 1] twoPhotos)) = []
   \<and> map snd (debugInfo (snd
        (exportCollage allClicked [OnLoad 0 loadsFine, OnError 1] twoPhotos))) =
       [''Exporting 2 photos as pdf'', ''Image load error for photo 1'',
        ''Completed with errors'']
   \<and> downloads (snd (exportCollage allClicked [OnError 1, OnLoad 0 loadsFine] twoPhotos)) =
       [\<lparr>filename = ''photobooth-session-20000.png'',
         href = ''data:image/png;base64,CCCC''\<rparr>]"
  by (simp add: exportCollage_def exportPhotos_collage twoPhotos_def allClicked_def
      loadsFine_def startCollage_def collage_rows collage_row_of Let_def
      photosPerRow_def photoSize_def margin_def addDebugInfo_def sliceLast_def
      collageLink_def toString.simps digit_def)

end
